theory Spec2Isabelle
  imports Complex_Main "HOL-Library.List_Lexorder" "HOL-Library.Multiset"
begin

unbundle bit_operations_syntax

section \<open>Python primitives used by the scanner\<close>

text \<open>
  The three primitives below are the ones the scanner calls on strings:
  \<^verbatim>\<open>str.split(sep)\<close> with a one-character separator, \<^verbatim>\<open>int(s)\<close> and the decimal
  rendering of an integer inside an f-string. They are modelled on ASCII text: on a text
  with other characters \<^verbatim>\<open>int(s)\<close> also strips Unicode white space and reads Unicode
  decimal digits, which \<open>py_int\<close> does not. Every property below that parses a text given
  from outside assumes \<open>ascii_text\<close> of it. Python integers are unbounded, so they are
  \<^typ>\<open>int\<close>; memory and digit-count limits of the interpreter are not modelled.
\<close>

definition ascii_text :: "string \<Rightarrow> bool" where
  "ascii_text s = list_all (\<lambda>c. (of_char c :: nat) < 128) s"

fun split_on :: "char \<Rightarrow> string \<Rightarrow> string list" where
  "split_on sep [] = [[]]"
| "split_on sep (c # cs) =
     (if c = sep then [] # split_on sep cs
      else (c # hd (split_on sep cs)) # tl (split_on sep cs))"

definition is_space :: "char \<Rightarrow> bool" where
  "is_space c = (c \<in> set [CHR '' '', CHR 0x09, CHR 0x0A, CHR 0x0B, CHR 0x0C, CHR 0x0D])"

definition strip :: "string \<Rightarrow> string" where
  "strip s = rev (dropWhile is_space (rev (dropWhile is_space s)))"

definition digit_val :: "char \<Rightarrow> int option" where
  "digit_val c = map_of (zip ''0123456789'' [0, 1, 2, 3, 4, 5, 6, 7, 8, 9]) c"

text \<open>
  The digits of an integer literal: at least one digit, and single underscores only
  between two digits. The flag says whether the previous character was a digit.
\<close>

fun py_digits :: "bool \<Rightarrow> int \<Rightarrow> string \<Rightarrow> int option" where
  "py_digits prev acc [] = (if prev then Some acc else None)"
| "py_digits prev acc (c # cs) =
     (case digit_val c of
        Some d \<Rightarrow> py_digits True (acc * 10 + d) cs
      | None \<Rightarrow> if c = CHR ''_'' \<and> prev then py_digits False acc cs else None)"

text \<open>\<^verbatim>\<open>int(s)\<close>: \<open>None\<close> stands for the ValueError.\<close>

definition py_int :: "string \<Rightarrow> int option" where
  "py_int s =
     (case strip s of
        [] \<Rightarrow> None
      | c # cs \<Rightarrow>
          if c = CHR ''-'' then map_option uminus (py_digits False 0 cs)
          else if c = CHR ''+'' then py_digits False 0 cs
          else py_digits False 0 (c # cs))"

definition digit_char :: "nat \<Rightarrow> char" where
  "digit_char n = ''0123456789'' ! n"

fun str_nat :: "nat \<Rightarrow> string" where
  "str_nat n =
     (if n < 10 then [digit_char n] else str_nat (n div 10) @ [digit_char (n mod 10)])"

declare str_nat.simps [simp del]

text \<open>\<^verbatim>\<open>f"{n}"\<close> for an integer \<open>n\<close>.\<close>

definition py_str :: "int \<Rightarrow> string" where
  "py_str n = (if n < 0 then CHR ''-'' # str_nat (nat (- n)) else str_nat (nat n))"

section \<open>host\_discovery.py: address-range partitioning\<close>

text \<open>
  The body of the \<^verbatim>\<open>try\<close> block of \<^verbatim>\<open>get_ip_range_from_cidr\<close>. Every exception the
  body can raise is a value: the unpacking of the split at \<open>/\<close>, \<^verbatim>\<open>int()\<close> on the
  prefix and on every dot-separated field, the index into \<^verbatim>\<open>parts\<close>, and the shift by
  a negative count.
\<close>

datatype py_exn = ValueError | IndexError

definition ip_to_int :: "int \<Rightarrow> int \<Rightarrow> int \<Rightarrow> int \<Rightarrow> int" where
  "ip_to_int p0 p1 p2 p3 = push_bit 24 p0 + push_bit 16 p1 + push_bit 8 p2 + p3"

definition format_ip :: "int \<Rightarrow> string" where
  "format_ip ip_int =
     py_str (drop_bit 24 ip_int AND 0xFF) @ ''.'' @ py_str (drop_bit 16 ip_int AND 0xFF) @ ''.'' @
     py_str (drop_bit 8 ip_int AND 0xFF) @ ''.'' @ py_str (ip_int AND 0xFF)"

definition cidr_hosts :: "string \<Rightarrow> py_exn + string list" where
  "cidr_hosts cidr =
     (case split_on CHR ''/'' cidr of
        [network, prefix_s] \<Rightarrow>
          (case py_int prefix_s of
             None \<Rightarrow> Inl ValueError
           | Some prefix \<Rightarrow>
               (case those (map py_int (split_on CHR ''.'' network)) of
                  None \<Rightarrow> Inl ValueError
                | Some parts \<Rightarrow>
                    (case parts of
                       p0 # p1 # p2 # p3 # _ \<Rightarrow>
                         (let base = ip_to_int p0 p1 p2 p3;
                              host_bits = 32 - prefix
                          in if host_bits < 0 then Inl ValueError
                             else
                               (let num_hosts = push_bit (nat host_bits) 1 - 2;
                                    num_hosts = (if num_hosts > 254 then 254 else num_hosts)
                                in Inr (map (\<lambda>i. format_ip (base + i)) [1..num_hosts])))
                     | _ \<Rightarrow> Inl IndexError)))
      | _ \<Rightarrow> Inl ValueError)"

definition get_ip_range_from_cidr :: "string \<Rightarrow> string list" where
  "get_ip_range_from_cidr cidr = (case cidr_hosts cidr of Inl _ \<Rightarrow> [] | Inr ips \<Rightarrow> ips)"

text \<open>
  The text of a CIDR block with decimal octets and prefix, as a caller writes it:
  the inputs on which the enumeration is stated.
\<close>

definition show_cidr :: "int \<Rightarrow> int \<Rightarrow> int \<Rightarrow> int \<Rightarrow> int \<Rightarrow> string" where
  "show_cidr a b c d p =
     py_str a @ ''.'' @ py_str b @ ''.'' @ py_str c @ ''.'' @ py_str d @ ''/'' @ py_str p"

section \<open>host\_discovery.py: host discovery\<close>

text \<open>
  The dictionaries built by \<^verbatim>\<open>discover_hosts\<close>: one per host found (keys \<^verbatim>\<open>ip\<close>,
  \<^verbatim>\<open>hostname\<close>, \<^verbatim>\<open>mac\<close>, \<^verbatim>\<open>status\<close>) and the returned one (keys \<^verbatim>\<open>network\<close>,
  \<^verbatim>\<open>hosts\<close>, \<^verbatim>\<open>total_scanned\<close>, \<^verbatim>\<open>total_found\<close>, \<^verbatim>\<open>error\<close>).
\<close>

record host_info =
  ip :: string
  hostname :: "string option"
  mac :: "string option"
  host_status :: string

record discover_result =
  network :: "string option"
  hosts :: "host_info list"
  total_scanned :: int
  total_found :: int
  disc_error :: "string option"

text \<open>
  What the operating system and the thread pool answer during one discovery: the local
  address read from the datagram socket (\<open>None\<close> when that raises), whether the ping
  command exits with code 0, the reverse-DNS name and the ARP entry of an address, a fault
  raised by \<^verbatim>\<open>future.result()\<close> itself, and the order in which \<^verbatim>\<open>as_completed\<close>
  yields the submitted futures.
\<close>

record disc_env =
  local_ip :: "string option"
  ping_exit_ok :: "string \<Rightarrow> bool"
  reverse_dns :: "string \<Rightarrow> string option"
  arp_entry :: "string \<Rightarrow> string option"
  ping_fault :: "string \<Rightarrow> string option"
  as_completed_ip :: "string list \<Rightarrow> string list"

definition get_local_network_range :: "disc_env \<Rightarrow> string option" where
  "get_local_network_range env =
     (case local_ip env of
        None \<Rightarrow> None
      | Some addr \<Rightarrow>
          (case split_on CHR ''.'' addr of
             p0 # p1 # p2 # _ \<Rightarrow> Some (p0 @ ''.'' @ p1 @ ''.'' @ p2 @ ''.0/24'')
           | _ \<Rightarrow> None))"

definition ping_host_quick :: "disc_env \<Rightarrow> string \<Rightarrow> bool" where
  "ping_host_quick env addr = ping_exit_ok env addr"

definition get_hostname_for_ip :: "disc_env \<Rightarrow> string \<Rightarrow> string option" where
  "get_hostname_for_ip env addr = reverse_dns env addr"

definition get_mac_from_arp :: "disc_env \<Rightarrow> string \<Rightarrow> string option" where
  "get_mac_from_arp env addr = arp_entry env addr"

text \<open>\<^verbatim>\<open>future.result()\<close> of a submitted \<^verbatim>\<open>ping_host_quick\<close>: \<open>Inl\<close> when it raises.\<close>

definition ping_future_result :: "disc_env \<Rightarrow> string \<Rightarrow> string + bool" where
  "ping_future_result env addr =
     (case ping_fault env addr of Some msg \<Rightarrow> Inl msg | None \<Rightarrow> Inr (ping_host_quick env addr))"

text \<open>
  The sort key \<^verbatim>\<open>[int(p) for p in x['ip'].split('.')]\<close>; Python compares the key
  lists lexicographically, which is the order of \<^typ>\<open>int list\<close> here.
\<close>

definition ip_key :: "string \<Rightarrow> int list option" where
  "ip_key s = those (map py_int (split_on CHR ''.'' s))"

definition sort_hosts :: "host_info list \<Rightarrow> string + host_info list" where
  "sort_hosts hs =
     (if list_all (\<lambda>h. ip_key (ip h) \<noteq> None) hs
      then Inr (sort_key (\<lambda>h. the (ip_key (ip h))) hs)
      else Inl ''invalid literal for int() with base 10'')"

text \<open>
  A progress callback returns \<open>None\<close> when it returns and \<open>Some msg\<close> when it raises an
  exception whose text is \<open>msg\<close>.
\<close>

type_synonym disc_callback = "int \<Rightarrow> int \<Rightarrow> string \<times> bool \<Rightarrow> string option"

text \<open>
  One iteration of the \<^verbatim>\<open>as_completed\<close> loop. The state is the result dictionary, the
  counter \<^verbatim>\<open>scanned\<close> and the calls made to the callback, each with its outcome. An
  exception of \<^verbatim>\<open>future.result()\<close> or of the callback is swallowed by
  \<^verbatim>\<open>except Exception: pass\<close>; the callback runs after the host was appended, so its
  outcome changes nothing else.
\<close>

definition discover_step ::
  "disc_env \<Rightarrow> disc_callback option \<Rightarrow> int \<Rightarrow>
   discover_result \<times> int \<times> (int \<times> int \<times> string \<times> bool \<times> string option) list \<Rightarrow> string \<Rightarrow>
   discover_result \<times> int \<times> (int \<times> int \<times> string \<times> bool \<times> string option) list" where
  "discover_step env callback total_count st addr =
     (case st of (result, scanned, calls) \<Rightarrow>
        (let scanned = scanned + 1 in
         case ping_future_result env addr of
           Inl _ \<Rightarrow> (result, scanned, calls)
         | Inr is_up \<Rightarrow>
             (let result =
                    (if is_up
                     then result\<lparr>hosts := hosts result @
                              [\<lparr>ip = addr, hostname = get_hostname_for_ip env addr,
                                mac = get_mac_from_arp env addr, host_status = ''up''\<rparr>],
                            total_found := total_found result + 1\<rparr>
                     else result);
                  calls =
                    (case callback of
                       None \<Rightarrow> calls
                     | Some cb \<Rightarrow>
                         calls @
                         [(scanned, total_count, addr, is_up,
                           cb scanned total_count (addr, is_up))])
              in (result, scanned, calls))))"

text \<open>
  A run of \<^verbatim>\<open>discover_hosts\<close>: the dictionary returned, the addresses for which a
  probe was submitted to the pool, and the callback calls (arguments and outcome).
\<close>

record discover_run =
  returned :: discover_result
  probes :: "string list"
  progress :: "(int \<times> int \<times> string \<times> bool \<times> string option) list"

definition discover_hosts ::
  "disc_env \<Rightarrow> string option \<Rightarrow> disc_callback option \<Rightarrow> int \<Rightarrow> discover_run" where
  "discover_hosts env network_range callback max_threads =
     (let result = \<lparr>network = network_range, hosts = [], total_scanned = 0, total_found = 0,
                     disc_error = None\<rparr>
      in case (case network_range of None \<Rightarrow> get_local_network_range env | Some r \<Rightarrow> Some r) of
           None \<Rightarrow>
             \<lparr>returned = result\<lparr>disc_error := Some ''Could not detect local network''\<rparr>,
              probes = [], progress = []\<rparr>
         | Some network_range \<Rightarrow>
             (let result = result\<lparr>network := Some network_range\<rparr>;
                  ip_list = get_ip_range_from_cidr network_range
              in if ip_list = []
                 then \<lparr>returned = result\<lparr>disc_error := Some ''Invalid network range''\<rparr>,
                       probes = [], progress = []\<rparr>
                 else
                   (let total_count = int (length ip_list);
                        result = result\<lparr>total_scanned := total_count\<rparr>
                    in if max_threads \<le> 0
                       then \<lparr>returned =
                               result\<lparr>disc_error := Some ''max_workers must be greater than 0''\<rparr>,
                             probes = [], progress = []\<rparr>
                       else
                         (case foldl (discover_step env callback total_count) (result, 0, [])
                                 (as_completed_ip env ip_list) of
                            (result, scanned, calls) \<Rightarrow>
                              (case sort_hosts (hosts result) of
                                 Inl msg \<Rightarrow>
                                   \<lparr>returned = result\<lparr>disc_error := Some msg\<rparr>,
                                    probes = ip_list, progress = calls\<rparr>
                               | Inr sorted_hosts \<Rightarrow>
                                   \<lparr>returned = result\<lparr>hosts := sorted_hosts\<rparr>,
                                    probes = ip_list, progress = calls\<rparr>)))))"

text \<open>
  The 32-bit integer value of a dotted-quad address, as the ranking of address scans is
  described: four decimal octets, most significant first.
\<close>

definition dotted_quad_value :: "string \<Rightarrow> int option" where
  "dotted_quad_value s =
     (case ip_key s of
        Some [a, b, c, d] \<Rightarrow>
          if list_all (\<lambda>x. 0 \<le> x \<and> x \<le> 255) [a, b, c, d] then Some (ip_to_int a b c d) else None
      | _ \<Rightarrow> None)"

section \<open>port\_scanner.py\<close>

definition COMMON_PORTS :: "(int \<times> string) list" where
  "COMMON_PORTS =
     [(20, ''FTP-Data''), (21, ''FTP''), (22, ''SSH''), (23, ''Telnet''), (25, ''SMTP''),
      (53, ''DNS''), (80, ''HTTP''), (110, ''POP3''), (143, ''IMAP''), (443, ''HTTPS''),
      (445, ''SMB''), (993, ''IMAPS''), (995, ''POP3S''), (3306, ''MySQL''), (3389, ''RDP''),
      (5432, ''PostgreSQL''), (5900, ''VNC''), (6379, ''Redis''), (8080, ''HTTP-Proxy''),
      (8443, ''HTTPS-Alt''), (27017, ''MongoDB'')]"

text \<open>\<^verbatim>\<open>COMMON_PORTS.get(port, 'Unknown')\<close>\<close>

definition service_name :: "int \<Rightarrow> string" where
  "service_name p = (case map_of COMMON_PORTS p of None \<Rightarrow> ''Unknown'' | Some s \<Rightarrow> s)"

record scan_result =
  port :: int
  status :: string
  service :: string
  error :: "string option"

text \<open>
  The exceptions the handlers of \<^verbatim>\<open>scan_port\<close> tell apart: \<^verbatim>\<open>socket.timeout\<close>,
  \<^verbatim>\<open>socket.gaierror\<close>, and any other exception \<open>e\<close> with its text \<^verbatim>\<open>str(e)\<close>.
\<close>

datatype sock_exn = SocketTimeout | GaiError | OtherException string

text \<open>
  What the socket layer does during one probe: each of the four calls either returns
  (\<open>None\<close>, or the code returned by \<^verbatim>\<open>connect_ex\<close>) or raises. \<^verbatim>\<open>connect_ex\<close>
  returns the error indicator of the connection attempt instead of raising: 0 when the
  connection is established, the errno otherwise, also when the timeout set on the socket
  expires. It still raises for other problems, such as a host name that does not resolve.
\<close>

definition ECONNREFUSED :: int where
  "ECONNREFUSED = 111"

definition EAGAIN :: int where
  "EAGAIN = 11"

record sock_env =
  on_socket :: "sock_exn option"
  on_settimeout :: "sock_exn option"
  on_connect_ex :: "sock_exn + int"
  on_close :: "sock_exn option"

datatype sock_event = SocketCreated | CloseCalled

definition handle_exn :: "sock_exn \<Rightarrow> scan_result \<Rightarrow> scan_result" where
  "handle_exn e result =
     (case e of
        SocketTimeout \<Rightarrow> result\<lparr>status := ''filtered'', error := Some ''Connection timed out''\<rparr>
      | GaiError \<Rightarrow> result\<lparr>status := ''error'', error := Some ''Could not resolve hostname''\<rparr>
      | OtherException msg \<Rightarrow> result\<lparr>status := ''error'', error := Some msg\<rparr>)"

text \<open>
  \<^verbatim>\<open>scan_port\<close> returns the outcome dictionary; the model also returns the socket events
  of the call, in order.
\<close>

definition scan_port ::
  "(string \<Rightarrow> int \<Rightarrow> real \<Rightarrow> sock_env) \<Rightarrow> string \<Rightarrow> int \<Rightarrow> real \<Rightarrow> scan_result \<times> sock_event list" where
  "scan_port net host p timeout =
     (let result = \<lparr>port = p, status = ''closed'', service = service_name p, error = None\<rparr>;
          env = net host p timeout
      in case on_socket env of
           Some e \<Rightarrow> (handle_exn e result, [])
         | None \<Rightarrow>
             (case on_settimeout env of
                Some e \<Rightarrow> (handle_exn e result, [SocketCreated])
              | None \<Rightarrow>
                  (case on_connect_ex env of
                     Inl e \<Rightarrow> (handle_exn e result, [SocketCreated])
                   | Inr connection_result \<Rightarrow>
                       (let result =
                              (if connection_result = 0 then result\<lparr>status := ''open''\<rparr>
                               else result\<lparr>status := ''closed''\<rparr>)
                        in case on_close env of
                             Some e \<Rightarrow> (handle_exn e result, [SocketCreated, CloseCalled])
                           | None \<Rightarrow> (result, [SocketCreated, CloseCalled])))))"

text \<open>
  The thread pool of a port scan: the network behind \<^verbatim>\<open>scan_port\<close>, a fault raised
  by \<^verbatim>\<open>future.result()\<close> for a port, and the completion order of the futures.
\<close>

record scan_env =
  net :: "string \<Rightarrow> int \<Rightarrow> real \<Rightarrow> sock_env"
  task_fault :: "int \<Rightarrow> string option"
  as_completed :: "int list \<Rightarrow> int list"

definition future_result :: "scan_env \<Rightarrow> string \<Rightarrow> real \<Rightarrow> int \<Rightarrow> string + scan_result" where
  "future_result env host timeout p =
     (case task_fault env p of
        Some msg \<Rightarrow> Inl msg
      | None \<Rightarrow> Inr (fst (scan_port (net env) host p timeout)))"

type_synonym scan_callback = "int \<Rightarrow> int \<Rightarrow> scan_result \<Rightarrow> string option"

definition error_entry :: "int \<Rightarrow> string \<Rightarrow> scan_result" where
  "error_entry p msg = \<lparr>port = p, status = ''error'', service = service_name p, error = Some msg\<rparr>"

text \<open>
  One iteration of the collection loop, which \<^verbatim>\<open>scan_port_range\<close> and
  \<^verbatim>\<open>scan_common_ports\<close> both have. The \<^verbatim>\<open>try\<close> block appends the result, counts it
  and then calls the callback; the handler appends an error entry and counts again,
  whichever of the three statements raised.
\<close>

definition collect_step ::
  "scan_env \<Rightarrow> string \<Rightarrow> real \<Rightarrow> scan_callback option \<Rightarrow> int \<Rightarrow>
   scan_result list \<times> int \<times> (int \<times> int \<times> scan_result) list \<Rightarrow> int \<Rightarrow>
   scan_result list \<times> int \<times> (int \<times> int \<times> scan_result) list" where
  "collect_step env host timeout callback total_count st p =
     (case st of (results, scanned, calls) \<Rightarrow>
        (case future_result env host timeout p of
           Inl msg \<Rightarrow> (results @ [error_entry p msg], scanned + 1, calls)
         | Inr result \<Rightarrow>
             (let results = results @ [result];
                  scanned = scanned + 1
              in case callback of
                   None \<Rightarrow> (results, scanned, calls)
                 | Some cb \<Rightarrow>
                     (case cb scanned total_count result of
                        None \<Rightarrow> (results, scanned, calls @ [(scanned, total_count, result)])
                      | Some msg \<Rightarrow>
                          (results @ [error_entry p msg], scanned + 1,
                           calls @ [(scanned, total_count, result)])))))"

text \<open>
  A run of a port scan: the list returned, the final value of the counter
  \<^verbatim>\<open>scanned\<close>, the ports for which a probe was submitted, and the callback calls.
\<close>

record scan_run =
  outcomes :: "scan_result list"
  completed :: int
  submitted :: "int list"
  notified :: "(int \<times> int \<times> scan_result) list"

text \<open>The final \<^verbatim>\<open>results.sort(key=lambda x: x['port'])\<close>; Python's sort is stable.\<close>

definition rank_ports :: "scan_result list \<Rightarrow> scan_result list" where
  "rank_ports results = sort_key port results"

definition run_pool ::
  "scan_env \<Rightarrow> string \<Rightarrow> real \<Rightarrow> scan_callback option \<Rightarrow> int \<Rightarrow> int list \<Rightarrow> scan_run" where
  "run_pool env host timeout callback total_count ports =
     (case foldl (collect_step env host timeout callback total_count) ([], 0, []) (as_completed env ports) of
        (results, scanned, calls) \<Rightarrow>
          \<lparr>outcomes = rank_ports results, completed = scanned, submitted = ports,
           notified = calls\<rparr>)"

text \<open>
  \<^verbatim>\<open>ThreadPoolExecutor(max_workers=max_threads)\<close> raises ValueError for a pool size
  below one, and \<^verbatim>\<open>scan_port_range\<close> has no handler for it: \<open>Inl\<close> is that exception.
\<close>

definition scan_port_range ::
  "scan_env \<Rightarrow> string \<Rightarrow> int \<Rightarrow> int \<Rightarrow> scan_callback option \<Rightarrow> real \<Rightarrow> int \<Rightarrow> string + scan_run" where
  "scan_port_range env host start_port end_port callback timeout max_threads =
     (let total_ports = end_port - start_port + 1
      in if max_threads \<le> 0 then Inl ''max_workers must be greater than 0''
         else Inr (run_pool env host timeout callback total_ports [start_port..end_port]))"

definition scan_common_ports ::
  "scan_env \<Rightarrow> string \<Rightarrow> scan_callback option \<Rightarrow> real \<Rightarrow> scan_run" where
  "scan_common_ports env host callback timeout =
     (let ports = map fst COMMON_PORTS;
          total_count = int (length ports)
      in run_pool env host timeout callback total_count ports)"

section \<open>network\_utils.py: liveness probe\<close>

text \<open>
  \<^verbatim>\<open>ping3.ping\<close> returns \<^verbatim>\<open>None\<close>, \<^verbatim>\<open>False\<close> or the latency in seconds, or raises
  PermissionError or another exception (the import of the module included). One TCP
  attempt either raises somewhere between creating the socket and closing it, or yields
  the code of \<^verbatim>\<open>connect_ex\<close> and the measured milliseconds. Latencies are real numbers;
  \<open>fmt2f\<close> is the rendering \<^verbatim>\<open>:.2f\<close>.
\<close>

datatype icmp_reply =
  IcmpNone | IcmpFalse | IcmpLatency real | IcmpPermissionError | IcmpException string

datatype tcp_attempt = TcpRaised | TcpReturned int real

record ping_env =
  icmp :: "string \<Rightarrow> real \<Rightarrow> icmp_reply"
  tcp :: "string \<Rightarrow> int \<Rightarrow> real \<Rightarrow> tcp_attempt"
  fmt2f :: "real \<Rightarrow> string"

text \<open>
  The result tuple \<open>(success, latency_ms, message)\<close>, with the ports on which a TCP
  connection was attempted, in order.
\<close>

type_synonym ping_result = "(bool \<times> real option \<times> string) \<times> int list"

fun tcp_ping_ports :: "ping_env \<Rightarrow> string \<Rightarrow> real \<Rightarrow> int list \<Rightarrow> ping_result" where
  "tcp_ping_ports env addr timeout [] =
     ((False, None, ''Host '' @ addr @ '' tidak merespons pada port umum''), [])"
| "tcp_ping_ports env addr timeout (p # ps) =
     (case tcp env addr p timeout of
        TcpReturned rc latency_ms \<Rightarrow>
          if rc = 0
          then ((True, Some latency_ms,
                 ''Reply dari '' @ addr @ '' (TCP port '' @ py_str p @ ''): time='' @
                 fmt2f env latency_ms @ ''ms''), [p])
          else (case tcp_ping_ports env addr timeout ps of (r, tried) \<Rightarrow> (r, p # tried))
      | TcpRaised \<Rightarrow>
          (case tcp_ping_ports env addr timeout ps of (r, tried) \<Rightarrow> (r, p # tried)))"

definition tcp_ping :: "ping_env \<Rightarrow> string \<Rightarrow> real \<Rightarrow> ping_result" where
  "tcp_ping env addr timeout = tcp_ping_ports env addr timeout [80, 443, 22]"

definition ping_host :: "ping_env \<Rightarrow> string \<Rightarrow> real \<Rightarrow> ping_result" where
  "ping_host env addr timeout =
     (case icmp env addr timeout of
        IcmpNone \<Rightarrow> ((False, None, ''Request timeout untuk '' @ addr), [])
      | IcmpFalse \<Rightarrow> ((False, None, ''Host '' @ addr @ '' tidak dapat dijangkau''), [])
      | IcmpLatency latency \<Rightarrow>
          (let latency_ms = latency * 1000
           in ((True, Some latency_ms,
                ''Reply dari '' @ addr @ '': time='' @ fmt2f env latency_ms @ ''ms''), []))
      | IcmpPermissionError \<Rightarrow> tcp_ping env addr timeout
      | IcmpException msg \<Rightarrow> ((False, None, ''Error: '' @ msg), []))"

section \<open>Notions used to state the properties\<close>

text \<open>A callback that is absent, or that returns from every call.\<close>

definition quiet :: "scan_callback option \<Rightarrow> bool" where
  "quiet callback = (case callback of None \<Rightarrow> True | Some cb \<Rightarrow> \<forall>n m r. cb n m r = None)"

text \<open>
  The entry that the collection loop appends first for a port: the outcome of the probe,
  or the error entry when \<^verbatim>\<open>future.result()\<close> raises.
\<close>

definition entry :: "scan_env \<Rightarrow> string \<Rightarrow> real \<Rightarrow> int \<Rightarrow> scan_result" where
  "entry env host timeout p =
     (case future_result env host timeout p of Inl msg \<Rightarrow> error_entry p msg | Inr r \<Rightarrow> r)"

text \<open>A TCP attempt on a port succeeds, and the milliseconds it measured.\<close>

definition connects :: "ping_env \<Rightarrow> string \<Rightarrow> real \<Rightarrow> int \<Rightarrow> bool" where
  "connects env addr timeout p =
     (case tcp env addr p timeout of TcpReturned rc _ \<Rightarrow> rc = 0 | TcpRaised \<Rightarrow> False)"

definition measured :: "ping_env \<Rightarrow> string \<Rightarrow> real \<Rightarrow> int \<Rightarrow> real option" where
  "measured env addr timeout p =
     (case tcp env addr p timeout of TcpReturned _ ms \<Rightarrow> Some ms | TcpRaised \<Rightarrow> None)"

text \<open>
  A port responds within the timeout when the attempt returns with the connection
  established or refused; an expired timeout returns another code.
\<close>

definition responds :: "ping_env \<Rightarrow> string \<Rightarrow> real \<Rightarrow> int \<Rightarrow> bool" where
  "responds env addr timeout p =
     (case tcp env addr p timeout of
        TcpReturned rc _ \<Rightarrow> rc = 0 \<or> rc = ECONNREFUSED
      | TcpRaised \<Rightarrow> False)"

text \<open>The list of results at the end of the collection loop, before the final sort.\<close>

definition collected ::
  "scan_env \<Rightarrow> string \<Rightarrow> real \<Rightarrow> scan_callback option \<Rightarrow> int \<Rightarrow> int list \<Rightarrow> scan_result list" where
  "collected env host timeout callback total_count ports =
     fst (foldl (collect_step env host timeout callback total_count) ([], 0, [])
            (as_completed env ports))"

text \<open>The four octets that \<^const>\<open>format_ip\<close> prints.\<close>

definition octets :: "int \<Rightarrow> int list" where
  "octets x = [drop_bit 24 x AND 0xFF, drop_bit 16 x AND 0xFF, drop_bit 8 x AND 0xFF, x AND 0xFF]"

definition digits_only :: "string \<Rightarrow> bool" where
  "digits_only s = (s \<noteq> [] \<and> set s \<subseteq> set ''0123456789'')"

definition digits_value :: "int \<Rightarrow> string \<Rightarrow> int" where
  "digits_value acc s = foldl (\<lambda>a c. a * 10 + the (digit_val c)) acc s"

text \<open>
  The inputs on which \<^verbatim>\<open>get_ip_range_from_cidr\<close> raises before it computes anything:
  the text does not split into two fields at \<open>/\<close>, the prefix or a dot-separated field
  of the address is not an integer literal, or the address has fewer than four fields.
  \<open>cidr_prefix\<close> is the prefix that the function reads.
\<close>

text \<open>
  A syntactically well-formed CIDR target, as the term is used for the partitioner:
  four decimal octets from 0 to 255 separated by dots, a slash, and a decimal prefix length
  from 0 to 32.
\<close>

definition octet_text :: "string \<Rightarrow> bool" where
  "octet_text t = (digits_only t \<and> digits_value 0 t \<le> 255)"

definition prefix_text :: "string \<Rightarrow> bool" where
  "prefix_text t = (digits_only t \<and> digits_value 0 t \<le> 32)"

definition well_formed_cidr :: "string \<Rightarrow> bool" where
  "well_formed_cidr s =
     (case split_on CHR ''/'' s of
        [n, p] \<Rightarrow>
          (case split_on CHR ''.'' n of
             [a, b, c, d] \<Rightarrow> list_all octet_text [a, b, c, d] \<and> prefix_text p
           | _ \<Rightarrow> False)
      | _ \<Rightarrow> False)"

definition cidr_prefix :: "string \<Rightarrow> int option" where
  "cidr_prefix s = (case split_on CHR ''/'' s of [n, p] \<Rightarrow> py_int p | _ \<Rightarrow> None)"

definition malformed_cidr :: "string \<Rightarrow> bool" where
  "malformed_cidr s =
     (case split_on CHR ''/'' s of
        [n, p] \<Rightarrow> py_int p = None \<or> ip_key n = None \<or> length (split_on CHR ''.'' n) < 4
      | _ \<Rightarrow> True)"

text \<open>The range that \<^verbatim>\<open>discover_hosts\<close> scans: the one given, or the detected one.\<close>

definition resolved_range :: "disc_env \<Rightarrow> string option \<Rightarrow> string option" where
  "resolved_range env network_range =
     (case network_range of None \<Rightarrow> get_local_network_range env | Some r \<Rightarrow> Some r)"

text \<open>The range that is scanned, when there is one, is ASCII text.\<close>

definition ascii_target :: "disc_env \<Rightarrow> string option \<Rightarrow> bool" where
  "ascii_target env network_range =
     (case resolved_range env network_range of None \<Rightarrow> True | Some s \<Rightarrow> ascii_text s)"

text \<open>
  The invariant of the result dictionary during the loop: the counter is the number of
  hosts, every host is up, and its address is one of the set \<open>S\<close>.
\<close>

definition disc_inv :: "string set \<Rightarrow> discover_result \<Rightarrow> bool" where
  "disc_inv S r =
     (total_found r = int (length (hosts r)) \<and>
      list_all (\<lambda>h. host_status h = ''up'' \<and> ip h \<in> S) (hosts r))"

text \<open>
  The entry that the loop appends for an address whose future returns \<^verbatim>\<open>True\<close>, and the
  addresses for which it does.
\<close>

definition host_entry :: "disc_env \<Rightarrow> string \<Rightarrow> host_info" where
  "host_entry env addr =
     \<lparr>ip = addr, hostname = get_hostname_for_ip env addr, mac = get_mac_from_arp env addr,
      host_status = ''up''\<rparr>"

definition answers_up :: "disc_env \<Rightarrow> string \<Rightarrow> bool" where
  "answers_up env addr = (ping_future_result env addr = Inr True)"

text \<open>Two hosts in the order of the 32-bit values of their addresses.\<close>

definition numeric_order :: "host_info \<Rightarrow> host_info \<Rightarrow> bool" where
  "numeric_order h1 h2 =
     (\<exists>v1 v2. dotted_quad_value (ip h1) = Some v1 \<and> dotted_quad_value (ip h2) = Some v2 \<and> v1 \<le> v2)"

text \<open>The outcome of a refused connection, and a host found with no name and no MAC.\<close>

definition closed_entry :: "int \<Rightarrow> scan_result" where
  "closed_entry p = \<lparr>port = p, status = ''closed'', service = service_name p, error = None\<rparr>"

definition up_host :: "string \<Rightarrow> host_info" where
  "up_host a = \<lparr>ip = a, hostname = None, mac = None, host_status = ''up''\<rparr>"

text \<open>
  The outcomes of a run are the ranking of what the loop collected: ascending in the port
  number, the same entries with the same multiplicity, the entries of one port in the
  order of collection, and unchanged when ranked again. When the completion order is a
  permutation of the ports submitted, the entry of every port is among them; when moreover
  the ports were submitted in ascending order and the callback is quiet, they are exactly
  one entry per port.
\<close>

definition ranked_run ::
  "scan_env \<Rightarrow> string \<Rightarrow> real \<Rightarrow> scan_callback option \<Rightarrow> int \<Rightarrow> int list \<Rightarrow> scan_run \<Rightarrow> bool" where
  "ranked_run env host timeout callback total_count ports run =
     (sorted (map port (outcomes run))
      \<and> mset (outcomes run) = mset (collected env host timeout callback total_count ports)
      \<and> (\<forall>p. filter (\<lambda>r. port r = p) (outcomes run) =
               filter (\<lambda>r. port r = p) (collected env host timeout callback total_count ports))
      \<and> rank_ports (outcomes run) = outcomes run
      \<and> (mset (as_completed env ports) = mset ports \<longrightarrow>
             entry env host timeout ` set ports \<subseteq> set (outcomes run))
      \<and> (mset (as_completed env ports) = mset ports \<and> sorted ports \<and> quiet callback \<longrightarrow>
             outcomes run = map (entry env host timeout) ports))"

subsection \<open>Environments of the examples\<close>

definition sock_open :: sock_env where
  "sock_open = \<lparr>on_socket = None, on_settimeout = None, on_connect_ex = Inr 0, on_close = None\<rparr>"

text \<open>The peer refuses the connection: \<^verbatim>\<open>connect_ex\<close> returns ECONNREFUSED.\<close>

definition sock_refused :: sock_env where
  "sock_refused =
     \<lparr>on_socket = None, on_settimeout = None, on_connect_ex = Inr ECONNREFUSED, on_close = None\<rparr>"

text \<open>
  Nothing answers before the timeout expires: \<^verbatim>\<open>connect_ex\<close> returns EAGAIN, the code of
  an expired timeout.
\<close>

definition sock_silent :: sock_env where
  "sock_silent =
     \<lparr>on_socket = None, on_settimeout = None, on_connect_ex = Inr EAGAIN, on_close = None\<rparr>"

definition sock_unresolved :: sock_env where
  "sock_unresolved =
     \<lparr>on_socket = None, on_settimeout = None, on_connect_ex = Inl GaiError, on_close = None\<rparr>"

text \<open>Every port refuses; the futures complete in reverse order of submission.\<close>

definition env_closed :: scan_env where
  "env_closed = \<lparr>net = (\<lambda>_ _ _. sock_refused), task_fault = (\<lambda>_. None), as_completed = rev\<rparr>"

text \<open>The same pool, with a fault injected into the task of port 22.\<close>

definition env_fault22 :: scan_env where
  "env_fault22 =
     \<lparr>net = (\<lambda>_ _ _. sock_refused),
      task_fault = (\<lambda>p. if p = 22 then Some ''injected fault'' else None),
      as_completed = rev\<rparr>"

text \<open>No privilege for ICMP; port 80 refuses, port 443 accepts after 12 ms.\<close>

definition env_443 :: ping_env where
  "env_443 =
     \<lparr>icmp = (\<lambda>_ _. IcmpPermissionError),
      tcp = (\<lambda>_ p _. if p = 80 then TcpReturned 111 3
                     else if p = 443 then TcpReturned 0 12 else TcpReturned 0 1),
      fmt2f = (\<lambda>_. ''12.00'')\<rparr>"

text \<open>No privilege for ICMP and no port answers.\<close>

definition env_down :: ping_env where
  "env_down =
     \<lparr>icmp = (\<lambda>_ _. IcmpPermissionError), tcp = (\<lambda>_ _ _. TcpRaised), fmt2f = (\<lambda>_. [])\<rparr>"

text \<open>No privilege for ICMP; every port refuses the connection at once.\<close>

definition env_refusing :: ping_env where
  "env_refusing =
     \<lparr>icmp = (\<lambda>_ _. IcmpPermissionError), tcp = (\<lambda>_ _ _. TcpReturned ECONNREFUSED 1),
      fmt2f = (\<lambda>_. ''1.00'')\<rparr>"

text \<open>No local address, nobody answers.\<close>

definition env_nobody :: disc_env where
  "env_nobody =
     \<lparr>local_ip = None, ping_exit_ok = (\<lambda>_. False), reverse_dns = (\<lambda>_. None),
      arp_entry = (\<lambda>_. None), ping_fault = (\<lambda>_. None), as_completed_ip = rev\<rparr>"

text \<open>Three hosts answer the ping; one has a reverse-DNS name.\<close>

definition env_lan :: disc_env where
  "env_lan =
     \<lparr>local_ip = Some ''10.0.0.7'', ping_exit_ok = (\<lambda>a. a \<in> set [''10.0.0.10'', ''10.0.0.2'', ''10.0.0.1'']),
      reverse_dns = (\<lambda>a. if a = ''10.0.0.1'' then Some ''gateway'' else None),
      arp_entry = (\<lambda>_. None), ping_fault = (\<lambda>_. None), as_completed_ip = rev\<rparr>"

text \<open>The result of every future raises.\<close>

definition env_faulty :: disc_env where
  "env_faulty =
     \<lparr>local_ip = None, ping_exit_ok = (\<lambda>_. True), reverse_dns = (\<lambda>_. None),
      arp_entry = (\<lambda>_. None), ping_fault = (\<lambda>_. Some ''worker failed''), as_completed_ip = rev\<rparr>"

section \<open>Decimal text and integers\<close>

lemma digit_val_digit_char: "n < 10 \<Longrightarrow> digit_val (digit_char n) = Some (int n)"
proof -
  assume "n < 10"
  then have "n \<in> {0, 1, 2, 3, 4, 5, 6, 7, 8, 9}" by auto
  then show ?thesis by (auto simp: digit_val_def digit_char_def)
qed

lemma digit_val_Some_iff: "digit_val c \<noteq> None \<longleftrightarrow> c \<in> set ''0123456789''"
  by (simp add: digit_val_def)

lemma digit_char_in: "n < 10 \<Longrightarrow> digit_char n \<in> set ''0123456789''"
  using digit_val_digit_char [of n] digit_val_Some_iff [of "digit_char n"] by simp

lemma digits_only_str_nat: "digits_only (str_nat n)"
proof (induction n rule: str_nat.induct)
  case (1 n)
  show ?case
  proof (cases "n < 10")
    case True
    then show ?thesis using digit_char_in [of n]
      by (subst str_nat.simps) (simp add: digits_only_def)
  next
    case False
    have m: "n mod 10 < 10" by simp
    from False 1 have "digits_only (str_nat (n div 10))" by simp
    with False show ?thesis using digit_char_in [OF m]
      by (subst str_nat.simps) (simp add: digits_only_def)
  qed
qed

lemma py_digits_digits:
  "set ds \<subseteq> set ''0123456789'' \<Longrightarrow>
   py_digits prev acc ds = (if ds = [] \<and> \<not> prev then None else Some (digits_value acc ds))"
proof (induction ds arbitrary: prev acc)
  case Nil
  then show ?case by (simp add: digits_value_def)
next
  case (Cons c cs)
  then have "digit_val c \<noteq> None" using digit_val_Some_iff [of c] by simp
  then obtain d where d: "digit_val c = Some d" by blast
  from Cons have "set cs \<subseteq> set ''0123456789''" by simp
  from Cons.IH [OF this] d show ?case by (simp add: digits_value_def)
qed

lemma digits_value_str_nat: "digits_value 0 (str_nat n) = int n"
proof (induction n rule: str_nat.induct)
  case (1 n)
  show ?case
  proof (cases "n < 10")
    case True
    then show ?thesis
      by (subst str_nat.simps) (simp add: digits_value_def digit_val_digit_char)
  next
    case False
    with 1 have ih: "digits_value 0 (str_nat (n div 10)) = int (n div 10)" by simp
    have m: "n mod 10 < 10" by simp
    have "digits_value 0 (str_nat n) = digits_value 0 (str_nat (n div 10)) * 10 + int (n mod 10)"
      using False by (subst str_nat.simps) (simp add: digits_value_def digit_val_digit_char [OF m])
    also have "\<dots> = int n" using ih by (simp add: zdiv_int zmod_int)
    finally show ?thesis .
  qed
qed

lemma not_space_digit: "c \<in> set ''0123456789'' \<Longrightarrow> \<not> is_space c"
  by (auto simp: is_space_def)

lemma strip_no_space: "\<forall>c \<in> set s. \<not> is_space c \<Longrightarrow> strip s = s"
proof -
  assume a: "\<forall>c \<in> set s. \<not> is_space c"
  have d: "dropWhile is_space t = t" if "\<forall>c \<in> set t. \<not> is_space c" for t
    using that by (cases t) auto
  from a have "dropWhile is_space s = s" by (rule d)
  moreover from a have "dropWhile is_space (rev s) = rev s" by (intro d) simp
  ultimately show ?thesis by (simp add: strip_def)
qed

lemma py_int_digits_only:
  assumes "digits_only s"
  shows "py_int s = Some (digits_value 0 s)"
proof -
  from assms obtain c cs where s: "s = c # cs" by (cases s) (auto simp: digits_only_def)
  from assms have sub: "set s \<subseteq> set ''0123456789''" by (simp add: digits_only_def)
  then have "\<forall>c \<in> set s. \<not> is_space c" using not_space_digit by blast
  then have st: "strip s = s" by (rule strip_no_space)
  from sub s have c: "c \<in> set ''0123456789''" by simp
  then have "c \<noteq> CHR ''-''" "c \<noteq> CHR ''+''" by auto
  then show ?thesis using st s py_digits_digits [OF sub, of False 0] by (simp add: py_int_def)
qed

lemma py_int_str_nat: "py_int (str_nat n) = Some (int n)"
  by (simp add: py_int_digits_only digits_only_str_nat digits_value_str_nat)

lemma py_int_py_str_nonneg: "0 \<le> n \<Longrightarrow> py_int (py_str n) = Some n"
  by (simp add: py_str_def py_int_str_nat)

lemma digits_only_py_str: "0 \<le> n \<Longrightarrow> digits_only (py_str n)"
  by (simp add: py_str_def digits_only_str_nat)

lemma digits_only_no_sep:
  "digits_only s \<Longrightarrow> CHR ''.'' \<notin> set s \<and> CHR ''/'' \<notin> set s"
  by (auto simp: digits_only_def)

section \<open>Splitting and dotted quads\<close>

lemma split_on_no_sep: "sep \<notin> set s \<Longrightarrow> split_on sep s = [s]"
  by (induction s) auto

lemma split_on_append: "sep \<notin> set s \<Longrightarrow> split_on sep (s @ sep # t) = s # split_on sep t"
  by (induction s) auto

lemma split_dots4:
  assumes "CHR ''.'' \<notin> set a" "CHR ''.'' \<notin> set b" "CHR ''.'' \<notin> set c" "CHR ''.'' \<notin> set d"
  shows "split_on CHR ''.'' (a @ ''.'' @ b @ ''.'' @ c @ ''.'' @ d) = [a, b, c, d]"
  using assms by (simp add: split_on_append split_on_no_sep)

lemma split_slash:
  assumes "CHR ''/'' \<notin> set n" "CHR ''/'' \<notin> set p"
  shows "split_on CHR ''/'' (n @ ''/'' @ p) = [n, p]"
  using assms by (simp add: split_on_append split_on_no_sep)

lemma ip_key_quad:
  assumes "0 \<le> a" "0 \<le> b" "0 \<le> c" "0 \<le> d"
  shows "ip_key (py_str a @ ''.'' @ py_str b @ ''.'' @ py_str c @ ''.'' @ py_str d) = Some [a, b, c, d]"
proof -
  have "split_on CHR ''.'' (py_str a @ ''.'' @ py_str b @ ''.'' @ py_str c @ ''.'' @ py_str d)
        = [py_str a, py_str b, py_str c, py_str d]"
    using assms by (intro split_dots4) (simp_all add: digits_only_no_sep digits_only_py_str)
  then show ?thesis using assms by (simp add: ip_key_def py_int_py_str_nonneg)
qed

lemma octet_range: "0 \<le> (x::int) AND 0xFF \<and> x AND 0xFF \<le> 255"
proof -
  have "x AND 0xFF = take_bit 8 x"
    using take_bit_eq_mask [of 8 x] by (simp add: mask_eq_exp_minus_1)
  then show ?thesis using take_bit_int_less_exp [of 8 x] by simp
qed

lemma ip_key_format_ip: "ip_key (format_ip x) = Some (octets x)"
  unfolding format_ip_def octets_def by (rule ip_key_quad) (simp_all add: octet_range)

lemma octets_value:
  "ip_to_int (drop_bit 24 x AND 0xFF) (drop_bit 16 x AND 0xFF) (drop_bit 8 x AND 0xFF) (x AND 0xFF)
   = x mod 2 ^ 32"
proof -
  have m: "y AND 0xFF = y mod 256" for y :: int
    using take_bit_eq_mask [of 8 y] by (simp add: mask_eq_exp_minus_1 take_bit_eq_mod)
  have a: "x mod 4294967296 = 16777216 * (x div 16777216 mod 256) + x mod 16777216"
    using zmod_zmult2_eq [of 256 x 16777216] by simp
  have b: "x mod 16777216 = 65536 * (x div 65536 mod 256) + x mod 65536"
    using zmod_zmult2_eq [of 256 x 65536] by simp
  have c: "x mod 65536 = 256 * (x div 256 mod 256) + x mod 256"
    using zmod_zmult2_eq [of 256 x 256] by simp
  show ?thesis
    by (simp add: ip_to_int_def m drop_bit_eq_div push_bit_eq_mult a b c)
qed

lemma format_ip_inj: "format_ip x = format_ip y \<Longrightarrow> x mod 2 ^ 32 = y mod 2 ^ 32"
proof -
  assume "format_ip x = format_ip y"
  then have "octets x = octets y" using ip_key_format_ip [of x] ip_key_format_ip [of y] by simp
  then show ?thesis using octets_value [of x] octets_value [of y] by (simp add: octets_def)
qed

lemma cidr_hosts_show_cidr:
  assumes "0 \<le> a" "0 \<le> b" "0 \<le> c" "0 \<le> d" "0 \<le> p" "p \<le> 32"
  shows "cidr_hosts (show_cidr a b c d p) =
         Inr (map (\<lambda>i. format_ip (ip_to_int a b c d + i)) [1..min (2 ^ nat (32 - p) - 2) 254])"
proof -
  let ?n = "py_str a @ ''.'' @ py_str b @ ''.'' @ py_str c @ ''.'' @ py_str d"
  have nd: "CHR ''/'' \<notin> set ?n"
    using assms by (simp add: digits_only_no_sep digits_only_py_str)
  have "split_on CHR ''/'' (?n @ ''/'' @ py_str p) = [?n, py_str p]"
    using nd assms by (intro split_slash) (simp_all add: digits_only_no_sep digits_only_py_str)
  then have sp: "split_on CHR ''/'' (show_cidr a b c d p) = [?n, py_str p]"
    by (simp add: show_cidr_def)
  have k: "those (map py_int (split_on CHR ''.'' ?n)) = Some [a, b, c, d]"
    using ip_key_quad [OF assms(1-4)] by (simp add: ip_key_def)
  have pp: "py_int (py_str p) = Some p" using assms by (simp add: py_int_py_str_nonneg)
  have mn: "(if (2::int) ^ nat (32 - p) - 2 > 254 then 254 else 2 ^ nat (32 - p) - 2)
            = min (2 ^ nat (32 - p) - 2) (254::int)" by (simp add: min_def)
  show ?thesis
    unfolding cidr_hosts_def sp using assms(6) k
    by (simp add: pp Let_def push_bit_eq_mult mn)
qed

section \<open>The port probe\<close>

lemma port_handle_exn: "port (handle_exn e r) = port r"
  by (cases e) (simp_all add: handle_exn_def)

lemma service_handle_exn: "service (handle_exn e r) = service r"
  by (cases e) (simp_all add: handle_exn_def)

lemma port_scan_port: "port (fst (scan_port n h p t)) = p"
  by (simp add: scan_port_def Let_def port_handle_exn split: option.splits sum.splits)

lemma service_scan_port: "service (fst (scan_port n h p t)) = service_name p"
  by (simp add: scan_port_def Let_def service_handle_exn split: option.splits sum.splits)

lemma status_handle_exn: "status (handle_exn e r) \<in> {''filtered'', ''error''}"
  by (cases e) (simp_all add: handle_exn_def)

lemma scan_port_close_called:
  "CloseCalled \<in> set (snd (scan_port n h p t)) \<longleftrightarrow>
   on_socket (n h p t) = None \<and> on_settimeout (n h p t) = None \<and>
   (\<exists>rc. on_connect_ex (n h p t) = Inr rc)"
  by (auto simp: scan_port_def Let_def split: option.splits sum.splits)

lemma scan_port_rows:
  assumes "nw host p t = e"
  shows "(on_socket e = None \<and> on_settimeout e = None \<and> on_connect_ex e = Inr 0 \<and> on_close e = None
            \<longrightarrow> status (fst (scan_port nw host p t)) = ''open'' \<and>
                error (fst (scan_port nw host p t)) = None)
       \<and> (\<forall>rc. on_socket e = None \<and> on_settimeout e = None \<and> on_connect_ex e = Inr rc \<and> rc \<noteq> 0 \<and>
               on_close e = None
            \<longrightarrow> status (fst (scan_port nw host p t)) = ''closed'' \<and>
                error (fst (scan_port nw host p t)) = None)
       \<and> (on_socket e = None \<and> on_settimeout e = None \<and> on_connect_ex e = Inl GaiError
            \<longrightarrow> status (fst (scan_port nw host p t)) = ''error'' \<and>
                error (fst (scan_port nw host p t)) = Some ''Could not resolve hostname'')
       \<and> status (fst (scan_port nw host p t)) \<in> {''open'', ''closed'', ''filtered'', ''error''}"
proof -
  have st: "status (fst (scan_port nw host p t)) \<in> {''open'', ''closed'', ''filtered'', ''error''}"
    using status_handle_exn
    by (auto simp: scan_port_def Let_def split: option.splits sum.splits)
  show ?thesis
    using assms st by (simp add: scan_port_def handle_exn_def)
qed

lemma scan_port_examples:
  "status (fst (scan_port (\<lambda>_ _ _. sock_open) ''192.168.1.1'' 80 1)) = ''open''
   \<and> status (fst (scan_port (\<lambda>_ _ _. sock_refused) ''192.168.1.1'' 80 1)) = ''closed''
   \<and> error (fst (scan_port (\<lambda>_ _ _. sock_unresolved) ''no-such-host.invalid'' 80 1))
       = Some ''Could not resolve hostname''"
  using scan_port_rows [of "\<lambda>_ _ _. sock_open" "''192.168.1.1''" 80 1 sock_open]
    scan_port_rows [of "\<lambda>_ _ _. sock_refused" "''192.168.1.1''" 80 1 sock_refused]
    scan_port_rows [of "\<lambda>_ _ _. sock_unresolved" "''no-such-host.invalid''" 80 1
      sock_unresolved]
  by (simp add: sock_open_def sock_refused_def sock_unresolved_def ECONNREFUSED_def)

text \<open>
  The status \<open>filtered\<close> is set by the handler of \<^verbatim>\<open>socket.timeout\<close> only, so it needs one
  of the four socket calls to raise that exception.
\<close>

lemma scan_port_filtered_needs_exception:
  assumes "status (fst (scan_port nw host p t)) = ''filtered''"
  shows "on_socket (nw host p t) = Some SocketTimeout \<or>
         on_settimeout (nw host p t) = Some SocketTimeout \<or>
         on_connect_ex (nw host p t) = Inl SocketTimeout \<or>
         on_close (nw host p t) = Some SocketTimeout"
proof -
  have h: "status (handle_exn x r) = ''filtered'' \<Longrightarrow> x = SocketTimeout" for x r
    by (cases x) (simp_all add: handle_exn_def)
  show ?thesis
    using assms h
    by (auto simp: scan_port_def Let_def split: option.splits sum.splits if_splits)
qed

text \<open>
  C7. The claim: an established connection gives \<open>open\<close>, a refused one \<open>closed\<close>, no
  response within the timeout \<open>filtered\<close> with a timeout message, a name-resolution failure
  \<open>error\<close> with a message. The first, second and fourth rows hold (lemma
  \<open>scan_port_rows\<close>). The third does not: the probe calls \<^verbatim>\<open>connect_ex\<close>, which reports an
  expired timeout as a non-zero code and raises nothing, so the branch for a non-zero code
  is taken and the handler of \<^verbatim>\<open>socket.timeout\<close> is not reached. For a port that does
  not answer, the outcome is \<open>closed\<close> with no error message.
\<close>

theorem scan_port_silent_port_closed:
  "fst (scan_port (\<lambda>_ _ _. sock_silent) ''10.255.255.1'' 80 1) =
     \<lparr>port = 80, status = ''closed'', service = ''HTTP'', error = None\<rparr>"
  by (simp add: scan_port_def sock_silent_def EAGAIN_def service_name_def COMMON_PORTS_def)

text \<open>
  C2. The claim is that the socket of \<^verbatim>\<open>scan_port\<close> is closed on every exit path. The
  call to \<^verbatim>\<open>close\<close> is the last statement of the \<^verbatim>\<open>try\<close> block, so it is reached
  only when \<^verbatim>\<open>connect_ex\<close> returns (lemma \<open>scan_port_close_called\<close>). For a host name
  that does not resolve, the socket is created and the function returns without calling
  \<^verbatim>\<open>close\<close>.
\<close>

theorem scan_port_unresolved_host_no_close:
  "snd (scan_port (\<lambda>_ _ _. sock_unresolved) ''no-such-host.invalid'' 80 1) = [SocketCreated]"
  by (simp add: scan_port_def sock_unresolved_def)

section \<open>The liveness probe\<close>

lemma tcp_ping_ports_first:
  "connects env addr t p \<Longrightarrow>
   fst (fst (tcp_ping_ports env addr t (p # ps))) = True \<and>
   fst (snd (fst (tcp_ping_ports env addr t (p # ps)))) = measured env addr t p \<and>
   snd (tcp_ping_ports env addr t (p # ps)) = [p]"
  by (auto simp: connects_def measured_def split: tcp_attempt.splits)

lemma tcp_ping_ports_skip:
  "\<not> connects env addr t p \<Longrightarrow>
   fst (tcp_ping_ports env addr t (p # ps)) = fst (tcp_ping_ports env addr t ps) \<and>
   snd (tcp_ping_ports env addr t (p # ps)) = p # snd (tcp_ping_ports env addr t ps)"
  by (auto simp: connects_def split: tcp_attempt.splits prod.splits)

text \<open>
  C8, as amended. When the ICMP echo raises PermissionError, \<^verbatim>\<open>ping_host\<close> tries TCP
  connections to the ports 80, 443 and 22 in this order. The first port that accepts the
  connection decides: the host is up with the milliseconds measured on that port, and no
  later port is tried. The host is down, with no latency, exactly when none of the three
  ports accepts the connection; a port that refuses counts like one that does not answer.
\<close>

theorem ping_host_fallback_order:
  assumes "icmp env addr t = IcmpPermissionError"
  shows "(connects env addr t 80 \<longrightarrow>
            fst (fst (ping_host env addr t)) \<and>
            fst (snd (fst (ping_host env addr t))) = measured env addr t 80 \<and>
            snd (ping_host env addr t) = [80])
       \<and> (\<not> connects env addr t 80 \<and> connects env addr t 443 \<longrightarrow>
            fst (fst (ping_host env addr t)) \<and>
            fst (snd (fst (ping_host env addr t))) = measured env addr t 443 \<and>
            snd (ping_host env addr t) = [80, 443])
       \<and> (\<not> connects env addr t 80 \<and> \<not> connects env addr t 443 \<and> connects env addr t 22 \<longrightarrow>
            fst (fst (ping_host env addr t)) \<and>
            fst (snd (fst (ping_host env addr t))) = measured env addr t 22 \<and>
            snd (ping_host env addr t) = [80, 443, 22])
       \<and> (\<not> connects env addr t 80 \<and> \<not> connects env addr t 443 \<and> \<not> connects env addr t 22 \<longrightarrow>
            \<not> fst (fst (ping_host env addr t)) \<and>
            fst (snd (fst (ping_host env addr t))) = None \<and>
            snd (ping_host env addr t) = [80, 443, 22])
       \<and> (\<not> fst (fst (ping_host env addr t)) \<longleftrightarrow>
            \<not> connects env addr t 80 \<and> \<not> connects env addr t 443 \<and> \<not> connects env addr t 22)"
proof -
  have ph: "ping_host env addr t = tcp_ping_ports env addr t [80, 443, 22]"
    using assms by (simp add: ping_host_def tcp_ping_def)
  have nil: "\<not> fst (fst (tcp_ping_ports env addr t []))"
    "fst (snd (fst (tcp_ping_ports env addr t []))) = None"
    "snd (tcp_ping_ports env addr t []) = []"
    by simp_all
  note first = tcp_ping_ports_first [of env addr t] and skip = tcp_ping_ports_skip [of env addr t]
  show ?thesis
  proof (cases "connects env addr t 80")
    case True
    then show ?thesis unfolding ph using first [of 80 "[443, 22]"] by simp
  next
    case c80: False
    show ?thesis
    proof (cases "connects env addr t 443")
      case True
      then show ?thesis
        unfolding ph using c80 skip [of 80 "[443, 22]"] first [of 443 "[22]"] by simp
    next
      case c443: False
      show ?thesis
      proof (cases "connects env addr t 22")
        case True
        then show ?thesis
          unfolding ph
          using c80 c443 skip [of 80 "[443, 22]"] skip [of 443 "[22]"] first [of 22 "[]"]
          by simp
      next
        case False
        then show ?thesis
          unfolding ph
          using c80 c443 skip [of 80 "[443, 22]"] skip [of 443 "[22]"] skip [of 22 "[]"] nil
          by simp
      qed
    qed
  qed
qed

theorem ping_host_fallback_order_witness:
  "icmp env_443 ''10.0.0.1'' 2 = IcmpPermissionError
   \<and> fst (fst (ping_host env_443 ''10.0.0.1'' 2))
   \<and> fst (snd (fst (ping_host env_443 ''10.0.0.1'' 2))) = Some 12
   \<and> snd (ping_host env_443 ''10.0.0.1'' 2) = [80, 443]
   \<and> icmp env_down ''10.0.0.1'' 2 = IcmpPermissionError
   \<and> \<not> fst (fst (ping_host env_down ''10.0.0.1'' 2))
   \<and> fst (snd (fst (ping_host env_down ''10.0.0.1'' 2))) = None
   \<and> snd (ping_host env_down ''10.0.0.1'' 2) = [80, 443, 22]"
  using ping_host_fallback_order [of env_443 "''10.0.0.1''" 2]
    ping_host_fallback_order [of env_down "''10.0.0.1''" 2]
  by (simp add: env_443_def env_down_def connects_def measured_def)

text \<open>
  C8 as stated fails for a host that refuses the three ports: every port responds within
  the timeout, and the host is reported down.
\<close>

theorem ping_host_refusing_host_counterexample:
  "icmp env_refusing ''10.0.0.1'' 2 = IcmpPermissionError
   \<and> responds env_refusing ''10.0.0.1'' 2 80
   \<and> responds env_refusing ''10.0.0.1'' 2 443
   \<and> responds env_refusing ''10.0.0.1'' 2 22
   \<and> \<not> fst (fst (ping_host env_refusing ''10.0.0.1'' 2))
   \<and> fst (snd (fst (ping_host env_refusing ''10.0.0.1'' 2))) = None
   \<and> snd (ping_host env_refusing ''10.0.0.1'' 2) = [80, 443, 22]"
  by (simp add: env_refusing_def responds_def ping_host_def tcp_ping_def ECONNREFUSED_def)

section \<open>Address-range partitioning\<close>

lemma format_ip_neq:
  assumes "0 < k" "k < 2 ^ 32"
  shows "format_ip x \<noteq> format_ip (x + k)" "format_ip (x + k) \<noteq> format_ip x"
proof -
  have "x mod 2 ^ 32 \<noteq> (x + k) mod 2 ^ 32"
  proof
    assume "x mod 2 ^ 32 = (x + k) mod 2 ^ 32"
    then have "(2::int) ^ 32 dvd (x + k) - x" using mod_eq_dvd_iff [of "x + k" "2 ^ 32" x] by simp
    then have "(2::int) ^ 32 dvd k" by simp
    then have "(2::int) ^ 32 \<le> k" using assms(1) by (rule zdvd_imp_le)
    with assms(2) show False by simp
  qed
  then show "format_ip x \<noteq> format_ip (x + k)" "format_ip (x + k) \<noteq> format_ip x"
    using format_ip_inj [of x "x + k"] format_ip_inj [of "x + k" x] by auto
qed

lemma get_ip_range_show_cidr:
  assumes "0 \<le> a" "0 \<le> b" "0 \<le> c" "0 \<le> d" "0 \<le> p" "p \<le> 32"
  shows "get_ip_range_from_cidr (show_cidr a b c d p) =
         map (\<lambda>i. format_ip (ip_to_int a b c d + i)) [1..min (2 ^ nat (32 - p) - 2) 254]"
  using cidr_hosts_show_cidr [OF assms] by (simp add: get_ip_range_from_cidr_def)

text \<open>
  C1, as amended. For a CIDR text with decimal octets and a prefix \<open>p\<close> from 0 to 32,
  \<^verbatim>\<open>get_ip_range_from_cidr\<close> returns the addresses \<open>base + 1, \<dots>, base + n\<close> in this
  order, where \<open>n = min(2^(32-p) - 2, 254)\<close>, and the empty list when \<open>n\<close> is not
  positive; so the length is \<open>max(0, n)\<close>. Neither \<open>base\<close> nor \<open>base + 2^(32-p) - 1\<close>
  (the network and broadcast addresses of the block that starts at \<open>base\<close>) is in the
  list. The text "10.0.0.0/30" gives "10.0.0.1" and "10.0.0.2".
\<close>

theorem get_ip_range_enumeration:
  assumes "0 \<le> a" "0 \<le> b" "0 \<le> c" "0 \<le> d" "0 \<le> p" "p \<le> 32"
  shows "get_ip_range_from_cidr (show_cidr a b c d p) =
           map (\<lambda>i. format_ip (ip_to_int a b c d + i)) [1..min (2 ^ nat (32 - p) - 2) 254]
       \<and> int (length (get_ip_range_from_cidr (show_cidr a b c d p))) =
           max 0 (min (2 ^ nat (32 - p) - 2) 254)
       \<and> format_ip (ip_to_int a b c d) \<notin> set (get_ip_range_from_cidr (show_cidr a b c d p))
       \<and> format_ip (ip_to_int a b c d + 2 ^ nat (32 - p) - 1)
           \<notin> set (get_ip_range_from_cidr (show_cidr a b c d p))
       \<and> get_ip_range_from_cidr ''10.0.0.0/30'' = [''10.0.0.1'', ''10.0.0.2'']"
proof -
  let ?base = "ip_to_int a b c d"
  let ?n = "min ((2::int) ^ nat (32 - p) - 2) 254"
  note eq = get_ip_range_show_cidr [OF assms]
  have len: "int (length (get_ip_range_from_cidr (show_cidr a b c d p))) = max 0 ?n"
    unfolding eq by simp
  have pw: "(2::int) ^ nat (32 - p) \<le> 2 ^ 32"
    using assms by (intro power_increasing) simp_all
  have net: "format_ip ?base \<notin> set (get_ip_range_from_cidr (show_cidr a b c d p))"
  proof
    assume "format_ip ?base \<in> set (get_ip_range_from_cidr (show_cidr a b c d p))"
    then obtain i where i: "1 \<le> i" "i \<le> ?n" "format_ip ?base = format_ip (?base + i)"
      unfolding eq by auto
    then have "0 < i" "i < 2 ^ 32" by simp_all
    from format_ip_neq(1) [OF this] i(3) show False by simp
  qed
  have bc: "format_ip (?base + 2 ^ nat (32 - p) - 1)
            \<notin> set (get_ip_range_from_cidr (show_cidr a b c d p))"
  proof
    assume "format_ip (?base + 2 ^ nat (32 - p) - 1)
            \<in> set (get_ip_range_from_cidr (show_cidr a b c d p))"
    then obtain i where i: "1 \<le> i" "i \<le> ?n"
      "format_ip (?base + 2 ^ nat (32 - p) - 1) = format_ip (?base + i)"
      unfolding eq by auto
    define k where "k = (2::int) ^ nat (32 - p) - 1 - i"
    have "0 < k" "k < 2 ^ 32" using i(1,2) pw by (simp_all add: k_def)
    from format_ip_neq(2) [OF this, of "?base + i"] i(3) show False
      by (simp add: k_def algebra_simps)
  qed
  have ex: "get_ip_range_from_cidr ''10.0.0.0/30'' = [''10.0.0.1'', ''10.0.0.2'']"
    by code_simp
  show ?thesis using eq len net bc ex by blast
qed

theorem get_ip_range_enumeration_witness:
  "get_ip_range_from_cidr (show_cidr 192 168 1 0 24) =
     map (\<lambda>i. format_ip (ip_to_int 192 168 1 0 + i)) [1..254]
   \<and> length (get_ip_range_from_cidr (show_cidr 192 168 1 0 24)) = 254
   \<and> format_ip (ip_to_int 192 168 1 0) \<notin> set (get_ip_range_from_cidr (show_cidr 192 168 1 0 24))
   \<and> show_cidr 192 168 1 0 24 = ''192.168.1.0/24''"
proof -
  have "0 \<le> (192::int)" "0 \<le> (168::int)" "0 \<le> (1::int)" "0 \<le> (0::int)"
    "0 \<le> (24::int)" "(24::int) \<le> 32"
    by simp_all
  note t = get_ip_range_enumeration [OF this]
  have m: "min ((2::int) ^ nat (32 - 24) - 2) 254 = 254" by simp
  from t have a: "get_ip_range_from_cidr (show_cidr 192 168 1 0 24) =
     map (\<lambda>i. format_ip (ip_to_int 192 168 1 0 + i)) [1..254]"
    unfolding m by (rule conjunct1)
  from t have c: "format_ip (ip_to_int 192 168 1 0)
      \<notin> set (get_ip_range_from_cidr (show_cidr 192 168 1 0 24))"
    by blast
  have b: "length (get_ip_range_from_cidr (show_cidr 192 168 1 0 24)) = 254"
    unfolding a by simp
  have d: "show_cidr 192 168 1 0 24 = ''192.168.1.0/24''"
    by code_simp
  show ?thesis using a b c d by blast
qed

text \<open>
  C1 as stated fails for the prefix 32: the formula gives \<open>-1\<close>, the list is empty.
\<close>

theorem get_ip_range_prefix32_counterexample:
  "int (length (get_ip_range_from_cidr ''10.0.0.0/32'')) \<noteq> min (2 ^ (32 - 32) - 2) 254"
  by code_simp

section \<open>Invalid targets\<close>

lemma length_those: "those xs = Some ys \<Longrightarrow> length ys = length xs"
  by (induction xs arbitrary: ys) (auto split: option.splits)

lemma cidr_hosts_invalid:
  assumes "malformed_cidr s \<or> (\<exists>k. cidr_prefix s = Some k \<and> 32 < k)"
  shows "\<exists>e. cidr_hosts s = Inl e"
proof (cases "\<exists>n p. split_on CHR ''/'' s = [n, p]")
  case False
  then show ?thesis by (auto simp: cidr_hosts_def split: list.splits)
next
  case True
  then obtain n p where sp: "split_on CHR ''/'' s = [n, p]" by blast
  show ?thesis
  proof (cases "py_int p")
    case None
    then show ?thesis using sp by (simp add: cidr_hosts_def)
  next
    case (Some k)
    show ?thesis
    proof (cases "those (map py_int (split_on CHR ''.'' n))")
      case None
      then show ?thesis using sp Some by (simp add: cidr_hosts_def)
    next
      case (Some parts)
      note parts = this
      have len: "length parts = length (split_on CHR ''.'' n)"
        using length_those [OF parts] by simp
      show ?thesis
      proof (cases "length (split_on CHR ''.'' n) < 4")
        case True
        with len have "length parts < 4" by simp
        then have "\<not> (\<exists>p0 p1 p2 p3 r. parts = p0 # p1 # p2 # p3 # r)" by auto
        then show ?thesis using sp \<open>py_int p = Some k\<close> parts
          by (auto simp: cidr_hosts_def split: list.splits)
      next
        case False
        with assms sp \<open>py_int p = Some k\<close> parts have "32 < k"
          by (auto simp: malformed_cidr_def cidr_prefix_def ip_key_def)
        then show ?thesis using sp \<open>py_int p = Some k\<close> parts
          by (auto simp: cidr_hosts_def Let_def split: list.splits)
      qed
    qed
  qed
qed

lemma discover_hosts_empty_range:
  assumes "get_ip_range_from_cidr s = []"
  shows "discover_hosts env (Some s) cb mt =
         \<lparr>returned = \<lparr>network = Some s, hosts = [], total_scanned = 0, total_found = 0,
                       disc_error = Some ''Invalid network range''\<rparr>,
          probes = [], progress = []\<rparr>"
  using assms by (simp add: discover_hosts_def)

lemma well_formed_not_rejected:
  assumes "well_formed_cidr s"
  shows "\<not> malformed_cidr s \<and> (\<exists>k. cidr_prefix s = Some k \<and> k \<le> 32)"
proof -
  from assms obtain n p where sp: "split_on CHR ''/'' s = [n, p]"
    by (auto simp: well_formed_cidr_def split: list.splits)
  with assms obtain a b c d where sd: "split_on CHR ''.'' n = [a, b, c, d]"
    by (auto simp: well_formed_cidr_def split: list.splits)
  from assms sp sd have oct: "digits_only a" "digits_only b" "digits_only c" "digits_only d"
    and pre: "digits_only p" "digits_value 0 p \<le> 32"
    by (simp_all add: well_formed_cidr_def octet_text_def prefix_text_def)
  have k: "ip_key n \<noteq> None"
    using sd oct by (simp add: ip_key_def py_int_digits_only)
  have pp: "py_int p = Some (digits_value 0 p)"
    using pre(1) by (rule py_int_digits_only)
  show ?thesis
    using sp sd k pp pre(2) by (simp add: malformed_cidr_def cidr_prefix_def)
qed

text \<open>
  C3, as amended. For an ASCII text that does not split into two fields at \<open>/\<close>, or
  whose prefix or one of whose dot-separated address fields is not an integer literal, or
  whose address has fewer than four fields, or whose prefix is greater than 32, the body
  of \<^verbatim>\<open>get_ip_range_from_cidr\<close> raises, the function returns the empty list, and
  \<^verbatim>\<open>discover_hosts\<close> returns the error "Invalid network range" without submitting any
  probe. There is no exception type for an invalid target: the empty list and the error
  field are the signal. Every such text is malformed or has its prefix out of range;
  targets malformed in another way are not covered.
\<close>

theorem invalid_cidr_no_probes:
  assumes "ascii_text s"
    and "malformed_cidr s \<or> (\<exists>k. cidr_prefix s = Some k \<and> 32 < k)"
  shows "(\<exists>e. cidr_hosts s = Inl e)
       \<and> get_ip_range_from_cidr s = []
       \<and> discover_hosts env (Some s) cb mt =
           \<lparr>returned = \<lparr>network = Some s, hosts = [], total_scanned = 0, total_found = 0,
                         disc_error = Some ''Invalid network range''\<rparr>,
            probes = [], progress = []\<rparr>
       \<and> \<not> well_formed_cidr s"
proof -
  from cidr_hosts_invalid [OF assms(2)] obtain e where e: "cidr_hosts s = Inl e" by blast
  then have r: "get_ip_range_from_cidr s = []" by (simp add: get_ip_range_from_cidr_def)
  have w: "\<not> well_formed_cidr s"
    using assms(2) well_formed_not_rejected [of s] by auto
  show ?thesis using e r w discover_hosts_empty_range [OF r] by blast
qed

theorem invalid_cidr_no_probes_witness:
  "ascii_text ''10.0.0.0/33''
   \<and> cidr_prefix ''10.0.0.0/33'' = Some 33
   \<and> probes (discover_hosts env_lan (Some ''10.0.0.0/33'') None 50) = []
   \<and> disc_error (returned (discover_hosts env_lan (Some ''10.0.0.0/33'') None 50))
       = Some ''Invalid network range''
   \<and> ascii_text ''10.0.0/24''
   \<and> malformed_cidr ''10.0.0/24''
   \<and> probes (discover_hosts env_lan (Some ''10.0.0/24'') None 50) = []"
proof -
  have a1: "ascii_text ''10.0.0.0/33''" by (simp add: ascii_text_def)
  have a2: "ascii_text ''10.0.0/24''" by (simp add: ascii_text_def)
  have p: "cidr_prefix ''10.0.0.0/33'' = Some 33" by code_simp
  have m: "malformed_cidr ''10.0.0/24''" by code_simp
  from p have "malformed_cidr ''10.0.0.0/33'' \<or> (\<exists>k. cidr_prefix ''10.0.0.0/33'' = Some k \<and> 32 < k)"
    by simp
  note a = invalid_cidr_no_probes [OF a1 this, of env_lan None 50]
  from m have "malformed_cidr ''10.0.0/24'' \<or> (\<exists>k. cidr_prefix ''10.0.0/24'' = Some k \<and> 32 < k)"
    by simp
  note b = invalid_cidr_no_probes [OF a2 this, of env_lan None 50]
  show ?thesis using a1 a2 p m a b by simp
qed

text \<open>
  C3 as stated fails in three ways. A negative prefix is outside 0 to 32: the shift count
  is positive, the cap gives 254 addresses, and all of them are probed. A target with six
  address fields and a target with the octet 999 are malformed: the fields after the fourth
  are parsed and ignored, the octet is masked to 231 when the address is printed, and two
  addresses are probed in each case.
\<close>

theorem negative_prefix_counterexample:
  "cidr_prefix ''10.0.0.0/-1'' = Some (- 1)
   \<and> length (get_ip_range_from_cidr ''10.0.0.0/-1'') = 254
   \<and> length (probes (discover_hosts env_nobody (Some ''10.0.0.0/-1'') None 50)) = 254
   \<and> disc_error (returned (discover_hosts env_nobody (Some ''10.0.0.0/-1'') None 50)) = None
   \<and> \<not> well_formed_cidr ''10.0.0.0.9.9/30''
   \<and> probes (discover_hosts env_nobody (Some ''10.0.0.0.9.9/30'') None 50) =
       [''10.0.0.1'', ''10.0.0.2'']
   \<and> disc_error (returned (discover_hosts env_nobody (Some ''10.0.0.0.9.9/30'') None 50)) = None
   \<and> \<not> well_formed_cidr ''999.0.0.0/30''
   \<and> probes (discover_hosts env_nobody (Some ''999.0.0.0/30'') None 50) =
       [''231.0.0.1'', ''231.0.0.2'']
   \<and> disc_error (returned (discover_hosts env_nobody (Some ''999.0.0.0/30'') None 50)) = None
   \<and> well_formed_cidr ''10.0.0.0/30''"
  by code_simp

section \<open>The discovery loop\<close>

lemma discover_step_inv:
  assumes "disc_inv S r" "a \<in> S"
  shows "disc_inv S (fst (discover_step env cb tot (r, n, cs) a))"
  using assms
  by (auto simp: discover_step_def disc_inv_def Let_def split: sum.splits)

lemma discover_step_fields:
  "network (fst (discover_step env cb tot (r, n, cs) a)) = network r \<and>
   total_scanned (fst (discover_step env cb tot (r, n, cs) a)) = total_scanned r \<and>
   disc_error (fst (discover_step env cb tot (r, n, cs) a)) = disc_error r"
  by (auto simp: discover_step_def Let_def split: sum.splits)

lemma discover_fold_inv:
  assumes "disc_inv S r" "set as \<subseteq> S"
  shows "disc_inv S (fst (foldl (discover_step env cb tot) (r, n, cs) as))
       \<and> disc_error (fst (foldl (discover_step env cb tot) (r, n, cs) as)) = disc_error r"
  using assms
proof (induction as arbitrary: r n cs)
  case Nil
  then show ?case by simp
next
  case (Cons a as)
  obtain r' n' cs' where st: "discover_step env cb tot (r, n, cs) a = (r', n', cs')"
    by (cases "discover_step env cb tot (r, n, cs) a") auto
  have "disc_inv S r'"
    using discover_step_inv [of S r a env cb tot n cs] Cons.prems st by simp
  moreover have "disc_error r' = disc_error r"
    using discover_step_fields [of env cb tot r n cs a] st by simp
  moreover have "set as \<subseteq> S" using Cons.prems by simp
  ultimately show ?case using Cons.IH [of r' n' cs'] st by simp
qed

lemma sort_hosts_inv:
  "disc_inv S r \<Longrightarrow> sort_hosts (hosts r) = Inr hs \<Longrightarrow> disc_inv S (r\<lparr>hosts := hs\<rparr>)"
  by (auto simp: sort_hosts_def disc_inv_def list_all_iff split: if_splits)

lemma disc_inv_error: "disc_inv S r \<Longrightarrow> disc_inv S (r\<lparr>disc_error := e\<rparr>)"
  by (simp add: disc_inv_def)

text \<open>The shape of a run, branch by branch.\<close>

lemma discover_hosts_cases:
  "(resolved_range env nr = None \<and>
      returned (discover_hosts env nr cb mt) =
        \<lparr>network = nr, hosts = [], total_scanned = 0, total_found = 0,
         disc_error = Some ''Could not detect local network''\<rparr>)
   \<or> (\<exists>s. resolved_range env nr = Some s \<and> get_ip_range_from_cidr s = [] \<and>
        returned (discover_hosts env nr cb mt) =
          \<lparr>network = Some s, hosts = [], total_scanned = 0, total_found = 0,
           disc_error = Some ''Invalid network range''\<rparr>)
   \<or> (\<exists>s. resolved_range env nr = Some s \<and> get_ip_range_from_cidr s \<noteq> [] \<and> mt \<le> 0 \<and>
        returned (discover_hosts env nr cb mt) =
          \<lparr>network = Some s, hosts = [], total_scanned = int (length (get_ip_range_from_cidr s)),
           total_found = 0, disc_error = Some ''max_workers must be greater than 0''\<rparr>)
   \<or> (\<exists>s r. resolved_range env nr = Some s \<and> get_ip_range_from_cidr s \<noteq> [] \<and> 0 < mt \<and>
        r = fst (foldl (discover_step env cb (int (length (get_ip_range_from_cidr s))))
                   (\<lparr>network = Some s, hosts = [],
                     total_scanned = int (length (get_ip_range_from_cidr s)),
                     total_found = 0, disc_error = None\<rparr>, 0, [])
                   (as_completed_ip env (get_ip_range_from_cidr s))) \<and>
        returned (discover_hosts env nr cb mt) =
          (case sort_hosts (hosts r) of
             Inl msg \<Rightarrow> r\<lparr>disc_error := Some msg\<rparr>
           | Inr hs \<Rightarrow> r\<lparr>hosts := hs\<rparr>))"
proof (cases "resolved_range env nr")
  case None
  then show ?thesis by (simp add: discover_hosts_def resolved_range_def)
next
  case (Some s)
  then show ?thesis
    by (cases "get_ip_range_from_cidr s = []"; cases "mt \<le> 0")
      (simp_all add: discover_hosts_def resolved_range_def Let_def case_prod_beta split: sum.splits)
qed

lemma discover_hosts_inv:
  assumes "\<And>s. resolved_range env nr = Some s \<Longrightarrow>
             set (as_completed_ip env (get_ip_range_from_cidr s)) \<subseteq> S"
  shows "disc_inv S (returned (discover_hosts env nr cb mt))
       \<and> (S \<subseteq> range format_ip \<longrightarrow>
            sorted (map (\<lambda>h. the (ip_key (ip h))) (hosts (returned (discover_hosts env nr cb mt)))))"
proof -
  consider
    (fail) "hosts (returned (discover_hosts env nr cb mt)) = []"
      "total_found (returned (discover_hosts env nr cb mt)) = 0"
  | (run) s r where "resolved_range env nr = Some s"
      "r = fst (foldl (discover_step env cb (int (length (get_ip_range_from_cidr s))))
                   (\<lparr>network = Some s, hosts = [],
                     total_scanned = int (length (get_ip_range_from_cidr s)),
                     total_found = 0, disc_error = None\<rparr>, 0, [])
                   (as_completed_ip env (get_ip_range_from_cidr s)))"
      "returned (discover_hosts env nr cb mt) =
          (case sort_hosts (hosts r) of
             Inl msg \<Rightarrow> r\<lparr>disc_error := Some msg\<rparr>
           | Inr hs \<Rightarrow> r\<lparr>hosts := hs\<rparr>)"
    using discover_hosts_cases [of env nr cb mt] by fastforce
  then show ?thesis
  proof cases
    case fail
    then show ?thesis by (simp add: disc_inv_def)
  next
    case run
    let ?r1 = "\<lparr>network = Some s, hosts = [],
                total_scanned = int (length (get_ip_range_from_cidr s)),
                total_found = 0, disc_error = None\<rparr>"
    have "disc_inv S ?r1" by (simp add: disc_inv_def)
    then have inv: "disc_inv S r"
      unfolding run(2) using discover_fold_inv [of S ?r1] assms [OF run(1)] by simp
    have a: "disc_inv S (returned (discover_hosts env nr cb mt))"
      unfolding run(3) using inv sort_hosts_inv [OF inv] disc_inv_error [OF inv]
      by (cases "sort_hosts (hosts r)") simp_all
    have b: "sorted (map (\<lambda>h. the (ip_key (ip h))) (hosts (returned (discover_hosts env nr cb mt))))"
      if sub: "S \<subseteq> range format_ip"
    proof -
      have "list_all (\<lambda>h. ip_key (ip h) \<noteq> None) (hosts r)"
        using inv sub ip_key_format_ip by (auto simp: disc_inv_def list_all_iff)
      then have "sort_hosts (hosts r) = Inr (sort_key (\<lambda>h. the (ip_key (ip h))) (hosts r))"
        by (simp add: sort_hosts_def)
      then show ?thesis unfolding run(3) by simp
    qed
    show ?thesis using a b by blast
  qed
qed

lemma get_ip_range_formatted: "set (get_ip_range_from_cidr s) \<subseteq> range format_ip"
  by (auto simp: get_ip_range_from_cidr_def cidr_hosts_def Let_def
      split: sum.splits list.splits option.splits if_splits)

lemma dotted_quad_value_format_ip: "dotted_quad_value (format_ip x) = Some (x mod 2 ^ 32)"
  using octets_value [of x] octet_range
  by (simp add: dotted_quad_value_def ip_key_format_ip octets_def)

lemma quad_lex_numeric:
  assumes "[a, b, c, d] \<le> [a', b', c', d']"
    and "0 \<le> b" "b \<le> 255" "0 \<le> c" "c \<le> 255" "0 \<le> d" "d \<le> 255"
    and "0 \<le> b'" "b' \<le> 255" "0 \<le> c'" "c' \<le> 255" "0 \<le> d'" "d' \<le> 255"
  shows "ip_to_int a b c d \<le> ip_to_int a' b' c' d'"
  using assms by (auto simp: ip_to_int_def push_bit_eq_mult)

lemma octets_le_numeric: "octets x \<le> octets y \<Longrightarrow> x mod 2 ^ 32 \<le> y mod 2 ^ 32"
  using quad_lex_numeric [of "drop_bit 24 x AND 0xFF" "drop_bit 16 x AND 0xFF" "drop_bit 8 x AND 0xFF"
      "x AND 0xFF" "drop_bit 24 y AND 0xFF" "drop_bit 16 y AND 0xFF" "drop_bit 8 y AND 0xFF"
      "y AND 0xFF"] octet_range
  by (simp add: octets_def octets_value)

lemma key_order_numeric:
  assumes "ip h1 \<in> range format_ip" "ip h2 \<in> range format_ip"
    and "the (ip_key (ip h1)) \<le> the (ip_key (ip h2))"
  shows "numeric_order h1 h2"
proof -
  from assms(1,2) obtain x y where xy: "ip h1 = format_ip x" "ip h2 = format_ip y" by blast
  with assms(3) have "octets x \<le> octets y" by (simp add: ip_key_format_ip)
  then have "x mod 2 ^ 32 \<le> y mod 2 ^ 32" by (rule octets_le_numeric)
  then show ?thesis by (simp add: numeric_order_def xy dotted_quad_value_format_ip)
qed

lemma discover_hosts_numeric:
  assumes "\<forall>xs. set (as_completed_ip env xs) \<subseteq> set xs"
  shows "sorted_wrt numeric_order (hosts (returned (discover_hosts env nr cb mt)))"
proof -
  let ?hs = "hosts (returned (discover_hosts env nr cb mt))"
  have sub: "set (as_completed_ip env (get_ip_range_from_cidr s)) \<subseteq> range format_ip" for s
    using assms get_ip_range_formatted [of s] by blast
  from discover_hosts_inv [of env nr "range format_ip" cb mt] sub
  have inv: "disc_inv (range format_ip) (returned (discover_hosts env nr cb mt))"
    and srt: "sorted (map (\<lambda>h. the (ip_key (ip h))) ?hs)"
    by simp_all
  from srt have "sorted_wrt (\<lambda>h1 h2. the (ip_key (ip h1)) \<le> the (ip_key (ip h2))) ?hs"
    by (simp add: sorted_map)
  moreover have "numeric_order h1 h2"
    if "h1 \<in> set ?hs" "h2 \<in> set ?hs" "the (ip_key (ip h1)) \<le> the (ip_key (ip h2))" for h1 h2
    using that inv key_order_numeric [of h1 h2] by (auto simp: disc_inv_def list_all_iff)
  ultimately show ?thesis by (rule sorted_wrt_mono_rel [rotated])
qed

lemma sort_hosts_idem: "sort_hosts hs = Inr hs' \<Longrightarrow> sort_hosts hs' = Inr hs'"
  by (auto simp: sort_hosts_def list_all_iff sort_key_id_if_sorted split: if_splits)

lemma sort_ports_idem: "sort_key port (sort_key port rs) = sort_key port (rs :: scan_result list)"
  by (simp add: sort_key_id_if_sorted)

section \<open>The collection loop of the port scans\<close>

lemma port_entry: "port (entry env h t p) = p"
  by (simp add: entry_def future_result_def error_entry_def port_scan_port split: option.splits)

lemma collect_quiet:
  assumes "quiet cb"
  shows "fst (foldl (collect_step env h t cb tot) (rs, n, cs) ps) = rs @ map (entry env h t) ps \<and>
         fst (snd (foldl (collect_step env h t cb tot) (rs, n, cs) ps)) = n + int (length ps)"
proof (induction ps arbitrary: rs n cs)
  case Nil
  show ?case by simp
next
  case (Cons p ps)
  obtain rs' n' cs' where st: "collect_step env h t cb tot (rs, n, cs) p = (rs', n', cs')"
    by (cases "collect_step env h t cb tot (rs, n, cs) p") auto
  have "rs' = rs @ [entry env h t p] \<and> n' = n + 1"
    using st assms
    by (auto simp: collect_step_def entry_def quiet_def Let_def split: sum.splits option.splits)
  then show ?case using Cons.IH [of rs' n' cs'] st by simp
qed

lemma collect_step_results:
  "\<exists>extra. fst (collect_step env h t cb tot (rs, n, cs) p) = rs @ entry env h t p # extra
     \<and> (\<forall>r \<in> set extra. port r = p)
     \<and> ((\<exists>msg. future_result env h t p = Inl msg) \<longrightarrow> extra = [])
     \<and> n + 1 \<le> fst (snd (collect_step env h t cb tot (rs, n, cs) p))"
  by (auto simp: collect_step_def entry_def Let_def error_entry_def split: sum.splits option.splits)

lemma collect_general:
  "n + int (length ps) \<le> fst (snd (foldl (collect_step env h t cb tot) (rs, n, cs) ps))
   \<and> set rs \<union> entry env h t ` set ps \<subseteq> set (fst (foldl (collect_step env h t cb tot) (rs, n, cs) ps))
   \<and> ((\<exists>msg. future_result env h t q = Inl msg) \<longrightarrow>
        filter (\<lambda>r. port r = q) (fst (foldl (collect_step env h t cb tot) (rs, n, cs) ps))
        = filter (\<lambda>r. port r = q) rs @ map (entry env h t) (filter (\<lambda>x. x = q) ps))"
proof (induction ps arbitrary: rs n cs)
  case Nil
  show ?case by simp
next
  case (Cons p ps)
  obtain rs' n' cs' where st: "collect_step env h t cb tot (rs, n, cs) p = (rs', n', cs')"
    by (cases "collect_step env h t cb tot (rs, n, cs) p") auto
  from collect_step_results [of env h t cb tot rs n cs p] st
  obtain extra where ex: "rs' = rs @ entry env h t p # extra" "\<forall>r \<in> set extra. port r = p"
    "(\<exists>msg. future_result env h t p = Inl msg) \<longrightarrow> extra = []" "n + 1 \<le> n'"
    by auto
  have f: "filter (\<lambda>r. port r = q) rs' =
           filter (\<lambda>r. port r = q) rs @ map (entry env h t) (filter (\<lambda>x. x = q) [p])"
    if "\<exists>msg. future_result env h t q = Inl msg"
  proof (cases "p = q")
    case True
    with that ex(3) have "extra = []" by simp
    then show ?thesis using ex(1) True by (simp add: port_entry)
  next
    case False
    then have "filter (\<lambda>r. port r = q) extra = []" using ex(2) by (auto simp: filter_empty_conv)
    then show ?thesis using ex(1) False by (simp add: port_entry)
  qed
  show ?case using Cons.IH [where rs = rs' and n = n' and cs = cs'] st ex(1,4) f by auto
qed

lemma insort_key_map_entry:
  assumes "\<And>x. f (g x) = x"
  shows "insort_key f (g x) (map g xs) = map g (insort x xs)"
  using assms by (induction xs) auto

lemma sort_key_map_entry:
  assumes "\<And>x. f (g x) = x"
  shows "sort_key f (map g xs) = map g (sort xs)"
  using assms by (induction xs) (simp_all add: insort_key_map_entry)

lemma run_pool_fields:
  "outcomes (run_pool env h t cb tot ps) =
     sort_key port (fst (foldl (collect_step env h t cb tot) ([], 0, []) (as_completed env ps)))
   \<and> completed (run_pool env h t cb tot ps) =
     fst (snd (foldl (collect_step env h t cb tot) ([], 0, []) (as_completed env ps)))
   \<and> submitted (run_pool env h t cb tot ps) = ps"
  by (simp add: run_pool_def rank_ports_def case_prod_beta)

lemma run_pool_sorted: "sorted (map port (outcomes (run_pool env h t cb tot ps)))"
  by (simp add: run_pool_fields)

lemma run_pool_quiet:
  assumes "quiet cb" and "mset (as_completed env ps) = mset ps" and "sorted ps"
  shows "outcomes (run_pool env h t cb tot ps) = map (entry env h t) ps \<and>
         completed (run_pool env h t cb tot ps) = int (length ps)"
proof -
  let ?st = "foldl (collect_step env h t cb tot) ([], 0, []) (as_completed env ps)"
  have a: "fst ?st = map (entry env h t) (as_completed env ps)"
    and b: "fst (snd ?st) = int (length (as_completed env ps))"
    using collect_quiet [OF assms(1), of env h t tot "[]" 0 "[]" "as_completed env ps"] by simp_all
  have len: "length (as_completed env ps) = length ps"
    using assms(2) by (metis size_mset)
  have srt: "sort (as_completed env ps) = ps"
    using assms(2,3) by (intro properties_for_sort) simp_all
  have "sort_key port (fst ?st) = map (entry env h t) ps"
    unfolding a using sort_key_map_entry [of port "entry env h t", OF port_entry] srt by simp
  then show ?thesis using b len by (simp add: run_pool_fields)
qed

lemma run_pool_general:
  assumes "mset (as_completed env ps) = mset ps"
  shows "int (length ps) \<le> completed (run_pool env h t cb tot ps)
       \<and> entry env h t ` set ps \<subseteq> set (outcomes (run_pool env h t cb tot ps))
       \<and> ((\<exists>msg. future_result env h t q = Inl msg) \<longrightarrow>
            filter (\<lambda>r. port r = q) (outcomes (run_pool env h t cb tot ps))
            = map (entry env h t) (filter (\<lambda>x. x = q) ps))"
proof -
  let ?os = "as_completed env ps"
  let ?st = "foldl (collect_step env h t cb tot) ([], 0, []) ?os"
  note g = collect_general [of 0 ?os env h t cb tot "[]" "[]" q]
  have len: "length ?os = length ps" using assms by (metis size_mset)
  have st: "set ?os = set ps" using assms by (metis set_mset_mset)
  have rep: "filter (\<lambda>x. x = q) zs = replicate (length (filter (\<lambda>x. x = q) zs)) q"
    for zs :: "int list"
    by (induction zs) auto
  have fl: "filter (\<lambda>x. x = q) ?os = filter (\<lambda>x. x = q) ps"
  proof -
    have "mset (filter (\<lambda>x. x = q) ?os) = mset (filter (\<lambda>x. x = q) ps)"
      by (simp add: assms)
    then show ?thesis using rep by (metis size_mset)
  qed
  have fs: "sorted (filter (\<lambda>x. x = q) ps)"
    using rep [of ps] sorted_replicate [of "length (filter (\<lambda>x. x = q) ps)" q] by simp
  have a: "int (length ps) \<le> fst (snd ?st)" using g len by simp
  have b: "entry env h t ` set ps \<subseteq> set (sort_key port (fst ?st))" using g st by simp
  have c: "filter (\<lambda>r. port r = q) (sort_key port (fst ?st)) = map (entry env h t) (filter (\<lambda>x. x = q) ps)"
    if f: "\<exists>msg. future_result env h t q = Inl msg"
  proof -
    have "filter (\<lambda>r. port r = q) (sort_key port (fst ?st))
          = sort_key port (filter (\<lambda>r. port r = q) (fst ?st))"
      by (rule filter_sort)
    also have "\<dots> = sort_key port (map (entry env h t) (filter (\<lambda>x. x = q) ?os))"
      using g f by simp
    also have "\<dots> = map (entry env h t) (sort (filter (\<lambda>x. x = q) ?os))"
      using sort_key_map_entry [of port "entry env h t", OF port_entry] by simp
    also have "sort (filter (\<lambda>x. x = q) ?os) = filter (\<lambda>x. x = q) ps"
      unfolding fl using fs by (simp add: sort_key_id_if_sorted)
    finally show ?thesis .
  qed
  show ?thesis using a b c by (simp add: run_pool_fields)
qed

lemma collect_labels:
  assumes "\<forall>r \<in> set rs. port r \<in> S \<and> service r = service_name (port r)" and "set ps \<subseteq> S"
  shows "\<forall>r \<in> set (fst (foldl (collect_step env h t cb tot) (rs, n, cs) ps)).
           port r \<in> S \<and> service r = service_name (port r)"
  using assms
proof (induction ps arbitrary: rs n cs)
  case Nil
  then show ?case by simp
next
  case (Cons p ps)
  obtain rs' n' cs' where st: "collect_step env h t cb tot (rs, n, cs) p = (rs', n', cs')"
    by (cases "collect_step env h t cb tot (rs, n, cs) p") auto
  have e: "port (error_entry p m) = p \<and> service (error_entry p m) = service_name p" for m
    by (simp add: error_entry_def)
  have "set rs' \<subseteq> set rs \<union> {r. port r = p \<and> service r = service_name p}"
    using st e
    by (auto simp: collect_step_def future_result_def Let_def port_scan_port service_scan_port
        split: sum.splits option.splits)
  then have "\<forall>r \<in> set rs'. port r \<in> S \<and> service r = service_name (port r)"
    using Cons.prems by auto
  moreover have "set ps \<subseteq> S" using Cons.prems by simp
  ultimately show ?case using Cons.IH [where rs = rs' and n = n' and cs = cs'] st by simp
qed

lemma run_pool_labels:
  assumes "set (as_completed env ps) \<subseteq> set ps"
  shows "\<forall>r \<in> set (outcomes (run_pool env h t cb tot ps)).
           port r \<in> set ps \<and> service r = service_name (port r)"
  using collect_labels [of "[]" "set ps" "as_completed env ps" env h t cb tot 0 "[]"] assms
  by (simp add: run_pool_fields)

lemma scan_port_range_quiet:
  assumes "quiet cb" "0 < mt" "mset (as_completed env [s..e]) = mset [s..e]"
  shows "\<exists>run. scan_port_range env h s e cb t mt = Inr run
           \<and> outcomes run = map (entry env h t) [s..e]
           \<and> map port (outcomes run) = [s..e]
           \<and> int (length (outcomes run)) = max 0 (e - s + 1)
           \<and> completed run = max 0 (e - s + 1)"
proof -
  have "sorted [s..e]" by simp
  note q = run_pool_quiet [OF assms(1,3) this, of h t "e - s + 1"]
  have "map port (map (entry env h t) [s..e]) = [s..e]"
    by (simp add: port_entry comp_def)
  then show ?thesis using assms(2) q by (simp add: scan_port_range_def)
qed

text \<open>
  C5. The claim: \<^verbatim>\<open>scan_port_range\<close> returns one outcome per port of the range, with
  distinct ports, and the counter ends at the number of ports. It holds when the callback
  is absent or returns from every call (lemma \<open>scan_port_range_quiet\<close>). A callback that
  raises does so after the result was appended and counted; the handler then appends an
  error entry for the same port and counts again. For the range 80 to 80 the list has two
  entries for port 80 and the counter is 2.
\<close>

theorem scan_port_range_raising_callback:
  "scan_port_range env_closed ''127.0.0.1'' 80 80 (Some (\<lambda>_ _ _. Some ''callback failed'')) 1 100 =
     Inr \<lparr>outcomes =
            [\<lparr>port = 80, status = ''closed'', service = ''HTTP'', error = None\<rparr>,
             \<lparr>port = 80, status = ''error'', service = ''HTTP'', error = Some ''callback failed''\<rparr>],
          completed = 2, submitted = [80],
          notified = [(1, 1, \<lparr>port = 80, status = ''closed'', service = ''HTTP'', error = None\<rparr>)]\<rparr>"
  by code_simp

text \<open>
  C6. When \<^verbatim>\<open>future.result()\<close> raises for exactly one port of the range, the list
  returned has exactly one entry for that port, the error entry with status \<open>error\<close>; the
  outcome of every other port is in the list; the scan returns, and the counter is at least
  the number of ports. When moreover the callback is absent or never raises, the counter
  equals the number of ports and the list is, in ascending order of port, the error entry
  for the faulty port and the outcome of \<^verbatim>\<open>scan_port\<close> for every other one.
\<close>

theorem one_fault_one_error_entry:
  assumes "mset (as_completed env [s..e]) = mset [s..e]" and "0 < mt"
    and "s \<le> p" "p \<le> e" and "task_fault env p = Some msg"
    and "\<forall>q. q \<noteq> p \<longrightarrow> task_fault env q = None"
  shows "\<exists>run. scan_port_range env h s e cb t mt = Inr run
           \<and> filter (\<lambda>r. port r = p) (outcomes run) = [error_entry p msg]
           \<and> status (error_entry p msg) = ''error''
           \<and> (\<forall>q. s \<le> q \<and> q \<le> e \<and> q \<noteq> p \<longrightarrow>
                 fst (scan_port (net env) h q t) \<in> set (outcomes run))
           \<and> e - s + 1 \<le> completed run
           \<and> (quiet cb \<longrightarrow>
                 completed run = e - s + 1 \<and>
                 outcomes run =
                   map (\<lambda>q. if q = p then error_entry p msg else fst (scan_port (net env) h q t))
                     [s..e])"
proof -
  let ?run = "run_pool env h t cb (e - s + 1) [s..e]"
  have r: "scan_port_range env h s e cb t mt = Inr ?run"
    using assms(2) by (simp add: scan_port_range_def)
  have ep: "entry env h t p = error_entry p msg"
    using assms(5) by (simp add: entry_def future_result_def)
  have eq: "entry env h t q = fst (scan_port (net env) h q t)" if "q \<noteq> p" for q
    using assms(6) that by (simp add: entry_def future_result_def)
  have fp: "\<exists>m. future_result env h t p = Inl m"
    using assms(5) by (simp add: future_result_def)
  note g = run_pool_general [OF assms(1), of h t cb "e - s + 1" p]
  have one: "filter (\<lambda>x. x = p) [s..e] = [p]"
    using upto_split3 [OF assms(3,4)] by (simp add: filter_empty_conv)
  have a: "filter (\<lambda>r. port r = p) (outcomes ?run) = [error_entry p msg]"
    using g fp one ep by simp
  have b: "fst (scan_port (net env) h q t) \<in> set (outcomes ?run)"
    if "s \<le> q" "q \<le> e" "q \<noteq> p" for q
  proof -
    have "entry env h t q \<in> entry env h t ` set [s..e]" using that by simp
    then show ?thesis using g eq [OF that(3)] by auto
  qed
  have c: "e - s + 1 \<le> completed ?run" using g assms(3,4) by simp
  have d: "completed ?run = e - s + 1 \<and>
           outcomes ?run =
             map (\<lambda>q. if q = p then error_entry p msg else fst (scan_port (net env) h q t)) [s..e]"
    if "quiet cb"
  proof -
    have "sorted [s..e]" by simp
    note q = run_pool_quiet [OF that assms(1) this, of h t "e - s + 1"]
    have "map (entry env h t) [s..e] =
          map (\<lambda>q. if q = p then error_entry p msg else fst (scan_port (net env) h q t)) [s..e]"
      using ep eq by (intro map_cong) auto
    then show ?thesis using q assms(3,4) by simp
  qed
  have st: "status (error_entry p msg) = ''error''" by (simp add: error_entry_def)
  show ?thesis using r a b c d st by blast
qed

theorem one_fault_one_error_entry_witness:
  "\<not> isl (scan_port_range env_fault22 ''127.0.0.1'' 20 25 None 1 100)
   \<and> outcomes (projr (scan_port_range env_fault22 ''127.0.0.1'' 20 25 None 1 100)) =
       [closed_entry 20, closed_entry 21, error_entry 22 ''injected fault'', closed_entry 23,
        closed_entry 24, closed_entry 25]
   \<and> completed (projr (scan_port_range env_fault22 ''127.0.0.1'' 20 25 None 1 100)) = 6"
proof -
  have f: "mset (as_completed env_fault22 [20..25]) = mset [20..25]"
    by (simp add: env_fault22_def)
  have "(0::int) < 100" "(20::int) \<le> 22" "(22::int) \<le> 25"
    "task_fault env_fault22 22 = Some ''injected fault''"
    "\<forall>q. q \<noteq> 22 \<longrightarrow> task_fault env_fault22 q = None"
    by (simp_all add: env_fault22_def)
  from one_fault_one_error_entry [OF f this, of "''127.0.0.1''" None 1]
  obtain run where run: "scan_port_range env_fault22 ''127.0.0.1'' 20 25 None 1 100 = Inr run"
    "completed run = 25 - 20 + 1"
    "outcomes run =
       map (\<lambda>q. if q = 22 then error_entry 22 ''injected fault''
                else fst (scan_port (net env_fault22) ''127.0.0.1'' q 1)) [20..25]"
    by (auto simp: quiet_def)
  have u: "[20..25] = [20, 21, 22, 23, 24, 25::int]" by (simp add: upto.simps)
  have sp: "fst (scan_port (net env_fault22) ''127.0.0.1'' q 1) = closed_entry q" for q
    by (simp add: scan_port_def env_fault22_def sock_refused_def ECONNREFUSED_def closed_entry_def)
  have o: "outcomes run = [closed_entry 20, closed_entry 21, error_entry 22 ''injected fault'',
      closed_entry 23, closed_entry 24, closed_entry 25]"
    unfolding run(3) u by (simp add: sp)
  show ?thesis unfolding run(1) using o run(2) by simp
qed

section \<open>The table of common ports\<close>

lemma common_ports_keys:
  "map fst COMMON_PORTS =
     [20, 21, 22, 23, 25, 53, 80, 110, 143, 443, 445, 993, 995, 3306, 3389, 5432, 5900, 6379,
      8080, 8443, 27017]"
  by (simp add: COMMON_PORTS_def)

lemma common_ports_labels: "map (\<lambda>p. (p, service_name p)) (map fst COMMON_PORTS) = COMMON_PORTS"
  by (simp add: COMMON_PORTS_def service_name_def)

text \<open>
  C4, as amended. \<^verbatim>\<open>scan_common_ports\<close> submits one probe per key of the table, which
  has the 21 ports below, port 20 (FTP-Data) included, each once; every port submitted has
  an outcome, and every outcome carries a port of the table and the service name of that
  port.
\<close>

theorem scan_common_ports_table:
  assumes "mset (as_completed env (map fst COMMON_PORTS)) = mset (map fst COMMON_PORTS)"
  shows "submitted (scan_common_ports env host cb t) =
           [20, 21, 22, 23, 25, 53, 80, 110, 143, 443, 445, 993, 995, 3306, 3389, 5432, 5900,
            6379, 8080, 8443, 27017]
       \<and> map (\<lambda>p. (p, service_name p)) (submitted (scan_common_ports env host cb t)) =
           [(20, ''FTP-Data''), (21, ''FTP''), (22, ''SSH''), (23, ''Telnet''), (25, ''SMTP''),
            (53, ''DNS''), (80, ''HTTP''), (110, ''POP3''), (143, ''IMAP''), (443, ''HTTPS''),
            (445, ''SMB''), (993, ''IMAPS''), (995, ''POP3S''), (3306, ''MySQL''), (3389, ''RDP''),
            (5432, ''PostgreSQL''), (5900, ''VNC''), (6379, ''Redis''), (8080, ''HTTP-Proxy''),
            (8443, ''HTTPS-Alt''), (27017, ''MongoDB'')]
       \<and> (\<forall>r \<in> set (outcomes (scan_common_ports env host cb t)).
             port r \<in> set (submitted (scan_common_ports env host cb t)) \<and>
             service r = service_name (port r))
       \<and> (\<forall>p \<in> set (submitted (scan_common_ports env host cb t)).
             \<exists>r \<in> set (outcomes (scan_common_ports env host cb t)). port r = p)"
proof -
  let ?ps = "map fst COMMON_PORTS"
  let ?run = "run_pool env host t cb (int (length ?ps)) ?ps"
  have r: "scan_common_ports env host cb t = ?run"
    by (simp add: scan_common_ports_def Let_def)
  have sub: "submitted ?run = ?ps" by (simp add: run_pool_fields)
  have a: "submitted ?run = [20, 21, 22, 23, 25, 53, 80, 110, 143, 443, 445, 993, 995, 3306, 3389,
      5432, 5900, 6379, 8080, 8443, 27017]"
    unfolding sub by (rule common_ports_keys)
  have b: "map (\<lambda>p. (p, service_name p)) (submitted ?run) = COMMON_PORTS"
    unfolding sub by (rule common_ports_labels)
  have st: "set (as_completed env ?ps) \<subseteq> set ?ps"
    using assms by (metis set_mset_mset subset_refl)
  have c: "\<forall>r \<in> set (outcomes ?run). port r \<in> set (submitted ?run) \<and> service r = service_name (port r)"
    unfolding sub by (rule run_pool_labels [OF st])
  have d: "\<forall>p \<in> set (submitted ?run). \<exists>r \<in> set (outcomes ?run). port r = p"
  proof
    fix p assume "p \<in> set (submitted ?run)"
    then have "p \<in> set ?ps" unfolding sub .
    then have "entry env host t p \<in> set (outcomes ?run)"
      using run_pool_general [OF assms, of host t cb "int (length ?ps)" p] by blast
    then show "\<exists>r \<in> set (outcomes ?run). port r = p" using port_entry by blast
  qed
  show ?thesis unfolding r using a b c d by (simp add: COMMON_PORTS_def)
qed

theorem scan_common_ports_table_witness:
  "outcomes (scan_common_ports env_closed ''127.0.0.1'' None 1) =
     map closed_entry
       [20, 21, 22, 23, 25, 53, 80, 110, 143, 443, 445, 993, 995, 3306, 3389, 5432, 5900, 6379,
        8080, 8443, 27017]
   \<and> list_all (\<lambda>r. service r = service_name (port r))
       (outcomes (scan_common_ports env_closed ''127.0.0.1'' None 1))
   \<and> length (submitted (scan_common_ports env_closed ''127.0.0.1'' None 1)) = 21"
proof -
  have f: "mset (as_completed env_closed (map fst COMMON_PORTS)) = mset (map fst COMMON_PORTS)"
    by (simp add: env_closed_def)
  note t = scan_common_ports_table [OF f, of "''127.0.0.1''" None 1]
  have o: "outcomes (scan_common_ports env_closed ''127.0.0.1'' None 1) =
     map closed_entry
       [20, 21, 22, 23, 25, 53, 80, 110, 143, 443, 445, 993, 995, 3306, 3389, 5432, 5900, 6379,
        8080, 8443, 27017]"
    by code_simp
  from t have "list_all (\<lambda>r. service r = service_name (port r))
       (outcomes (scan_common_ports env_closed ''127.0.0.1'' None 1))"
    unfolding list_all_iff by blast
  moreover from t have "length (submitted (scan_common_ports env_closed ''127.0.0.1'' None 1)) = 21"
    by simp
  ultimately show ?thesis using o by blast
qed

text \<open>
  C4 as stated fails: port 20 is probed, and it is not among the twenty ports of the claim.
\<close>

theorem scan_common_ports_port20_counterexample:
  "\<not> set (submitted (scan_common_ports env_closed ''127.0.0.1'' None 1))
       \<subseteq> {21, 22, 23, 25, 53, 80, 110, 143, 443, 445, 993, 995, 3306, 3389, 5432, 5900, 6379,
          8080, 8443, 27017}"
  by (simp add: scan_common_ports_def run_pool_fields COMMON_PORTS_def)

section \<open>Ranking\<close>

lemma run_pool_ranked: "ranked_run env h t cb tot ps (run_pool env h t cb tot ps)"
proof -
  let ?run = "run_pool env h t cb tot ps"
  have o: "outcomes ?run = sort_key port (collected env h t cb tot ps)"
    by (simp add: run_pool_fields collected_def)
  have a: "sorted (map port (outcomes ?run))" by (rule run_pool_sorted)
  have b: "mset (outcomes ?run) = mset (collected env h t cb tot ps)"
    unfolding o by simp
  have c: "\<forall>p. filter (\<lambda>r. port r = p) (outcomes ?run) =
               filter (\<lambda>r. port r = p) (collected env h t cb tot ps)"
    unfolding o by (simp add: sort_key_stable)
  have d: "rank_ports (outcomes ?run) = outcomes ?run"
    unfolding o rank_ports_def by (simp add: sort_key_id_if_sorted)
  have e: "entry env h t ` set ps \<subseteq> set (outcomes ?run)"
    if "mset (as_completed env ps) = mset ps"
    using run_pool_general [OF that, of h t cb tot 0] by blast
  have f: "outcomes ?run = map (entry env h t) ps"
    if "mset (as_completed env ps) = mset ps" "sorted ps" "quiet cb"
    using run_pool_quiet [OF that(3,1,2), of h t tot] by blast
  show ?thesis unfolding ranked_run_def using a b c d e f by blast
qed

lemma discover_fold_hosts:
  "hosts (fst (foldl (discover_step env cb tot) (r, n, cs) as)) =
     hosts r @ map (host_entry env) (filter (answers_up env) as)"
proof (induction as arbitrary: r n cs)
  case Nil
  show ?case by simp
next
  case (Cons a as)
  obtain r' n' cs' where st: "discover_step env cb tot (r, n, cs) a = (r', n', cs')"
    by (cases "discover_step env cb tot (r, n, cs) a") auto
  have "hosts r' = hosts r @ map (host_entry env) (filter (answers_up env) [a])"
    using st
    by (auto simp: discover_step_def host_entry_def answers_up_def Let_def split: sum.splits)
  then show ?case using Cons.IH [of r' n' cs'] st by simp
qed

lemma discover_hosts_content:
  assumes "resolved_range env nr = Some s" "get_ip_range_from_cidr s \<noteq> []" "0 < mt"
    and "set (as_completed_ip env (get_ip_range_from_cidr s)) \<subseteq> set (get_ip_range_from_cidr s)"
  shows "mset (hosts (returned (discover_hosts env nr cb mt))) =
         mset (map (host_entry env)
                 (filter (answers_up env) (as_completed_ip env (get_ip_range_from_cidr s))))"
proof -
  let ?r1 = "\<lparr>network = Some s, hosts = [],
              total_scanned = int (length (get_ip_range_from_cidr s)),
              total_found = 0, disc_error = None\<rparr>"
  let ?r = "fst (foldl (discover_step env cb (int (length (get_ip_range_from_cidr s))))
                   (?r1, 0, []) (as_completed_ip env (get_ip_range_from_cidr s)))"
  have ret: "returned (discover_hosts env nr cb mt) =
          (case sort_hosts (hosts ?r) of
             Inl msg \<Rightarrow> ?r\<lparr>disc_error := Some msg\<rparr>
           | Inr hs \<Rightarrow> ?r\<lparr>hosts := hs\<rparr>)"
    using discover_hosts_cases [of env nr cb mt] assms(1-3) by auto
  have sub: "set (as_completed_ip env (get_ip_range_from_cidr s)) \<subseteq> range format_ip"
    using assms(4) get_ip_range_formatted [of s] by blast
  have "disc_inv (range format_ip) ?r1" by (simp add: disc_inv_def)
  from discover_fold_inv [OF this sub, of env cb "int (length (get_ip_range_from_cidr s))" 0 "[]"]
  have inv: "disc_inv (range format_ip) ?r" by simp
  have "list_all (\<lambda>h. ip_key (ip h) \<noteq> None) (hosts ?r)"
    using inv ip_key_format_ip by (auto simp: disc_inv_def list_all_iff)
  then have "sort_hosts (hosts ?r) = Inr (sort_key (\<lambda>h. the (ip_key (ip h))) (hosts ?r))"
    by (simp add: sort_hosts_def)
  then have "mset (hosts (returned (discover_hosts env nr cb mt))) = mset (hosts ?r)"
    unfolding ret by simp
  also have "hosts ?r = map (host_entry env)
                 (filter (answers_up env) (as_completed_ip env (get_ip_range_from_cidr s)))"
    using discover_fold_hosts [of env cb "int (length (get_ip_range_from_cidr s))" ?r1 0 "[]"]
    by simp
  finally show ?thesis .
qed

lemma discover_hosts_ranked_again:
  assumes "\<forall>xs. set (as_completed_ip env xs) \<subseteq> set xs"
  shows "sort_hosts (hosts (returned (discover_hosts env nr cb mt))) =
         Inr (hosts (returned (discover_hosts env nr cb mt)))"
proof -
  let ?hs = "hosts (returned (discover_hosts env nr cb mt))"
  have sub: "set (as_completed_ip env (get_ip_range_from_cidr s)) \<subseteq> range format_ip" for s
    using assms get_ip_range_formatted [of s] by blast
  from discover_hosts_inv [of env nr "range format_ip" cb mt] sub
  have inv: "disc_inv (range format_ip) (returned (discover_hosts env nr cb mt))"
    and srt: "sorted (map (\<lambda>h. the (ip_key (ip h))) ?hs)"
    by simp_all
  have "list_all (\<lambda>h. ip_key (ip h) \<noteq> None) ?hs"
    using inv ip_key_format_ip by (auto simp: disc_inv_def list_all_iff)
  then show ?thesis using srt by (simp add: sort_hosts_def sort_key_id_if_sorted)
qed

text \<open>
  C9. A port scan returns, and the list it returns is the ranking of the collected results
  by port number: ascending, a permutation of what was collected, stable, and (for a
  completion order that is a permutation of the ports, with a quiet callback) exactly one
  entry per port in ascending order. The hosts of a discovery are a permutation of the
  entries of the addresses that answered, in the order of the 32-bit values of their
  dotted-quad addresses, so "10.0.0.2" comes before "10.0.0.10". Ranking a ranked list
  again changes nothing, for the lists the scans return and for any list.
\<close>

theorem ranking_numeric_idempotent:
  assumes "\<forall>xs. set (as_completed_ip denv xs) \<subseteq> set xs" and "ascii_target denv nr"
  shows "(0 < mt \<longrightarrow>
             (\<exists>run. scan_port_range env host s e cb t mt = Inr run \<and>
                    ranked_run env host t cb (e - s + 1) [s..e] run))
       \<and> ranked_run env host t cb (int (length COMMON_PORTS)) (map fst COMMON_PORTS)
           (scan_common_ports env host cb t)
       \<and> (\<forall>r. resolved_range denv nr = Some r \<and> get_ip_range_from_cidr r \<noteq> [] \<and> 0 < dmt \<longrightarrow>
             mset (hosts (returned (discover_hosts denv nr dcb dmt))) =
             mset (map (host_entry denv)
                     (filter (answers_up denv)
                        (as_completed_ip denv (get_ip_range_from_cidr r)))))
       \<and> sorted_wrt numeric_order (hosts (returned (discover_hosts denv nr dcb dmt)))
       \<and> sort_hosts (hosts (returned (discover_hosts denv nr dcb dmt))) =
           Inr (hosts (returned (discover_hosts denv nr dcb dmt)))
       \<and> numeric_order (up_host ''10.0.0.2'') (up_host ''10.0.0.10'')
       \<and> \<not> numeric_order (up_host ''10.0.0.10'') (up_host ''10.0.0.2'')
       \<and> sort_hosts [up_host ''10.0.0.10'', up_host ''10.0.0.2''] =
           Inr [up_host ''10.0.0.2'', up_host ''10.0.0.10'']
       \<and> rank_ports (rank_ports rs) = rank_ports rs
       \<and> (\<forall>hs'. sort_hosts hs = Inr hs' \<longrightarrow> sort_hosts hs' = Inr hs')"
proof -
  have a: "0 < mt \<longrightarrow>
             (\<exists>run. scan_port_range env host s e cb t mt = Inr run \<and>
                    ranked_run env host t cb (e - s + 1) [s..e] run)"
    using run_pool_ranked [of env host t cb "e - s + 1" "[s..e]"]
    by (simp add: scan_port_range_def)
  have a': "\<forall>r. resolved_range denv nr = Some r \<and> get_ip_range_from_cidr r \<noteq> [] \<and> 0 < dmt \<longrightarrow>
             mset (hosts (returned (discover_hosts denv nr dcb dmt))) =
             mset (map (host_entry denv)
                     (filter (answers_up denv)
                        (as_completed_ip denv (get_ip_range_from_cidr r))))"
    using discover_hosts_content [of denv nr _ dmt dcb] assms(1) by blast
  have b: "ranked_run env host t cb (int (length COMMON_PORTS)) (map fst COMMON_PORTS)
           (scan_common_ports env host cb t)"
    using run_pool_ranked [of env host t cb "int (length COMMON_PORTS)" "map fst COMMON_PORTS"]
    by (simp add: scan_common_ports_def Let_def)
  have v2: "dotted_quad_value ''10.0.0.2'' = Some 167772162" by code_simp
  have v10: "dotted_quad_value ''10.0.0.10'' = Some 167772170" by code_simp
  have c: "numeric_order (up_host ''10.0.0.2'') (up_host ''10.0.0.10'')"
    unfolding numeric_order_def up_host_def using v2 v10 by simp
  have d: "\<not> numeric_order (up_host ''10.0.0.10'') (up_host ''10.0.0.2'')"
    unfolding numeric_order_def up_host_def using v2 v10 by simp
  have ex: "sort_hosts [up_host ''10.0.0.10'', up_host ''10.0.0.2''] =
           Inr [up_host ''10.0.0.2'', up_host ''10.0.0.10'']"
    by code_simp
  have f: "sorted_wrt numeric_order (hosts (returned (discover_hosts denv nr dcb dmt)))"
    by (rule discover_hosts_numeric [OF assms(1)])
  have f': "sort_hosts (hosts (returned (discover_hosts denv nr dcb dmt))) =
           Inr (hosts (returned (discover_hosts denv nr dcb dmt)))"
    by (rule discover_hosts_ranked_again [OF assms(1)])
  have g: "rank_ports (rank_ports rs) = rank_ports rs"
    unfolding rank_ports_def by (rule sort_ports_idem)
  have h: "\<forall>hs'. sort_hosts hs = Inr hs' \<longrightarrow> sort_hosts hs' = Inr hs'"
    using sort_hosts_idem by blast
  show ?thesis using a a' b c d ex f f' g h by blast
qed

theorem ranking_numeric_idempotent_witness:
  "ascii_target env_lan (Some ''10.0.0.0/28'')
   \<and> map ip (hosts (returned (discover_hosts env_lan (Some ''10.0.0.0/28'') None 50))) =
       [''10.0.0.1'', ''10.0.0.2'', ''10.0.0.10'']
   \<and> sorted_wrt numeric_order (hosts (returned (discover_hosts env_lan (Some ''10.0.0.0/28'') None 50)))
   \<and> as_completed env_closed [20, 21, 22, 23, 24, 25] = [25, 24, 23, 22, 21, 20]
   \<and> \<not> isl (scan_port_range env_closed ''127.0.0.1'' 20 25 None 1 100)
   \<and> outcomes (projr (scan_port_range env_closed ''127.0.0.1'' 20 25 None 1 100)) =
       [closed_entry 20, closed_entry 21, closed_entry 22, closed_entry 23, closed_entry 24,
        closed_entry 25]"
proof -
  have f: "\<forall>xs. set (as_completed_ip env_lan xs) \<subseteq> set xs" by (simp add: env_lan_def)
  have asc: "ascii_target env_lan (Some ''10.0.0.0/28'')"
    by (simp add: ascii_target_def resolved_range_def ascii_text_def)
  note t = ranking_numeric_idempotent [OF f asc, where env = env_closed and host = "''127.0.0.1''"
      and s = 20 and e = 25 and cb = None and t = 1 and mt = 100 and dcb = None and dmt = 50]
  have m: "map ip (hosts (returned (discover_hosts env_lan (Some ''10.0.0.0/28'') None 50))) =
     [''10.0.0.1'', ''10.0.0.2'', ''10.0.0.10'']"
    by code_simp
  have r: "scan_port_range env_closed ''127.0.0.1'' 20 25 None 1 100 =
           Inr (run_pool env_closed ''127.0.0.1'' 1 None (25 - 20 + 1) [20..25])"
    by (simp add: scan_port_range_def)
  from t r have rk: "ranked_run env_closed ''127.0.0.1'' 1 None (25 - 20 + 1) [20..25]
      (run_pool env_closed ''127.0.0.1'' 1 None (25 - 20 + 1) [20..25])"
    by simp
  have u: "[20..25] = [20, 21, 22, 23, 24, 25::int]" by (simp add: upto.simps)
  have pm: "mset (as_completed env_closed [20..25]) = mset [20..25]"
    by (simp add: env_closed_def)
  have q: "quiet None" by (simp add: quiet_def)
  have en: "entry env_closed ''127.0.0.1'' 1 q = closed_entry q" for q
    by (simp add: entry_def future_result_def env_closed_def scan_port_def sock_refused_def
        ECONNREFUSED_def closed_entry_def)
  from rk pm q have "outcomes (run_pool env_closed ''127.0.0.1'' 1 None (25 - 20 + 1) [20..25]) =
      map (entry env_closed ''127.0.0.1'' 1) [20..25]"
    unfolding ranked_run_def by simp
  then have o: "outcomes (projr (scan_port_range env_closed ''127.0.0.1'' 20 25 None 1 100)) =
       [closed_entry 20, closed_entry 21, closed_entry 22, closed_entry 23, closed_entry 24,
        closed_entry 25]"
    unfolding r u by (simp add: en)
  have ac: "as_completed env_closed [20, 21, 22, 23, 24, 25] = [25, 24, 23, 22, 21, 20]"
    by (simp add: env_closed_def)
  have ni: "\<not> isl (scan_port_range env_closed ''127.0.0.1'' 20 25 None 1 100)"
    unfolding r by simp
  show ?thesis using t m o ac ni asc by blast
qed

section \<open>The result of a discovery\<close>

lemma discover_hosts_loop_error:
  assumes "resolved_range env nr = Some s" "get_ip_range_from_cidr s \<noteq> []" "0 < mt"
    and "set (as_completed_ip env (get_ip_range_from_cidr s)) \<subseteq> set (get_ip_range_from_cidr s)"
  shows "disc_error (returned (discover_hosts env nr cb mt)) = None"
proof -
  let ?r1 = "\<lparr>network = Some s, hosts = [],
              total_scanned = int (length (get_ip_range_from_cidr s)),
              total_found = 0, disc_error = None\<rparr>"
  let ?r = "fst (foldl (discover_step env cb (int (length (get_ip_range_from_cidr s))))
                   (?r1, 0, []) (as_completed_ip env (get_ip_range_from_cidr s)))"
  have ret: "returned (discover_hosts env nr cb mt) =
          (case sort_hosts (hosts ?r) of
             Inl msg \<Rightarrow> ?r\<lparr>disc_error := Some msg\<rparr>
           | Inr hs \<Rightarrow> ?r\<lparr>hosts := hs\<rparr>)"
    using discover_hosts_cases [of env nr cb mt] assms(1-3) by auto
  have sub: "set (as_completed_ip env (get_ip_range_from_cidr s)) \<subseteq> range format_ip"
    using assms(4) get_ip_range_formatted [of s] by blast
  have "disc_inv (range format_ip) ?r1" by (simp add: disc_inv_def)
  from discover_fold_inv [OF this sub, of env cb "int (length (get_ip_range_from_cidr s))" 0 "[]"]
  have inv: "disc_inv (range format_ip) ?r" and err: "disc_error ?r = None"
    by simp_all
  have "list_all (\<lambda>h. ip_key (ip h) \<noteq> None) (hosts ?r)"
    using inv ip_key_format_ip by (auto simp: disc_inv_def list_all_iff)
  then have "sort_hosts (hosts ?r) = Inr (sort_key (\<lambda>h. the (ip_key (ip h))) (hosts ?r))"
    by (simp add: sort_hosts_def)
  then show ?thesis unfolding ret using err by simp
qed

text \<open>
  C10, as amended. \<^verbatim>\<open>discover_hosts\<close> returns a dictionary on every input. In it the
  counter \<open>total_found\<close> is the number of hosts and every host has the status \<open>up\<close>. When
  no network is detected, when the range gives no address, or when the pool cannot be
  created, the error field is set. Once the loop is entered the error field stays
  \<open>None\<close>, whatever \<^verbatim>\<open>future.result()\<close> and the callback raise: such a fault is swallowed
  and is not reported in the dictionary.
\<close>

theorem discover_hosts_result_invariant:
  assumes "ascii_target env nr"
  shows "total_found (returned (discover_hosts env nr cb mt)) =
           int (length (hosts (returned (discover_hosts env nr cb mt))))
       \<and> list_all (\<lambda>h. host_status h = ''up'') (hosts (returned (discover_hosts env nr cb mt)))
       \<and> (resolved_range env nr = None \<longrightarrow>
            disc_error (returned (discover_hosts env nr cb mt)) =
              Some ''Could not detect local network'')
       \<and> (\<forall>s. resolved_range env nr = Some s \<and> get_ip_range_from_cidr s = [] \<longrightarrow>
            disc_error (returned (discover_hosts env nr cb mt)) = Some ''Invalid network range'')
       \<and> (\<forall>s. resolved_range env nr = Some s \<and> get_ip_range_from_cidr s \<noteq> [] \<and> mt \<le> 0 \<longrightarrow>
            disc_error (returned (discover_hosts env nr cb mt)) =
              Some ''max_workers must be greater than 0'')
       \<and> (\<forall>s. resolved_range env nr = Some s \<and> get_ip_range_from_cidr s \<noteq> [] \<and> 0 < mt \<and>
               set (as_completed_ip env (get_ip_range_from_cidr s))
                 \<subseteq> set (get_ip_range_from_cidr s) \<longrightarrow>
            disc_error (returned (discover_hosts env nr cb mt)) = None)"
proof -
  have "disc_inv UNIV (returned (discover_hosts env nr cb mt))"
    using discover_hosts_inv [of env nr UNIV cb mt] by simp
  then have a: "total_found (returned (discover_hosts env nr cb mt)) =
     int (length (hosts (returned (discover_hosts env nr cb mt))))"
    and b: "list_all (\<lambda>h. host_status h = ''up'') (hosts (returned (discover_hosts env nr cb mt)))"
    by (simp_all add: disc_inv_def list_all_iff)
  have c: "(resolved_range env nr = None \<longrightarrow>
            disc_error (returned (discover_hosts env nr cb mt)) =
              Some ''Could not detect local network'')
       \<and> (\<forall>s. resolved_range env nr = Some s \<and> get_ip_range_from_cidr s = [] \<longrightarrow>
            disc_error (returned (discover_hosts env nr cb mt)) = Some ''Invalid network range'')
       \<and> (\<forall>s. resolved_range env nr = Some s \<and> get_ip_range_from_cidr s \<noteq> [] \<and> mt \<le> 0 \<longrightarrow>
            disc_error (returned (discover_hosts env nr cb mt)) =
              Some ''max_workers must be greater than 0'')"
    using discover_hosts_cases [of env nr cb mt] by auto
  have d: "\<forall>s. resolved_range env nr = Some s \<and> get_ip_range_from_cidr s \<noteq> [] \<and> 0 < mt \<and>
               set (as_completed_ip env (get_ip_range_from_cidr s))
                 \<subseteq> set (get_ip_range_from_cidr s) \<longrightarrow>
            disc_error (returned (discover_hosts env nr cb mt)) = None"
    using discover_hosts_loop_error [of env nr _ mt cb] by blast
  show ?thesis using a b c d by blast
qed

theorem discover_hosts_result_invariant_witness:
  "total_found (returned (discover_hosts env_lan (Some ''10.0.0.0/28'') None 50)) = 3
   \<and> length (hosts (returned (discover_hosts env_lan (Some ''10.0.0.0/28'') None 50))) = 3
   \<and> disc_error (returned (discover_hosts env_lan (Some ''10.0.0.0/28'') None 50)) = None
   \<and> disc_error (returned (discover_hosts env_nobody None None 50))
       = Some ''Could not detect local network''
   \<and> disc_error (returned (discover_hosts env_lan (Some ''10.0.0.0/33'') None 50))
       = Some ''Invalid network range''
   \<and> disc_error (returned (discover_hosts env_lan (Some ''10.0.0.0/28'') None 0))
       = Some ''max_workers must be greater than 0''"
proof -
  have a1: "ascii_target env_lan (Some ''10.0.0.0/28'')"
    by (simp add: ascii_target_def resolved_range_def ascii_text_def)
  have a2: "ascii_target env_nobody None"
    by (simp add: ascii_target_def resolved_range_def get_local_network_range_def env_nobody_def)
  have a3: "ascii_target env_lan (Some ''10.0.0.0/33'')"
    by (simp add: ascii_target_def resolved_range_def ascii_text_def)
  have r1: "resolved_range env_nobody None = None" by code_simp
  have r2: "resolved_range env_lan (Some ''10.0.0.0/33'') = Some ''10.0.0.0/33''
            \<and> get_ip_range_from_cidr ''10.0.0.0/33'' = []" by code_simp
  have r3: "resolved_range env_lan (Some ''10.0.0.0/28'') = Some ''10.0.0.0/28''
            \<and> get_ip_range_from_cidr ''10.0.0.0/28'' \<noteq> [] \<and> (0::int) \<le> 0" by code_simp
  have r4: "set (as_completed_ip env_lan (get_ip_range_from_cidr ''10.0.0.0/28''))
            \<subseteq> set (get_ip_range_from_cidr ''10.0.0.0/28'')"
    by (simp add: env_lan_def)
  have n: "length (hosts (returned (discover_hosts env_lan (Some ''10.0.0.0/28'') None 50))) = 3"
    by code_simp
  show ?thesis
    using discover_hosts_result_invariant [OF a1, of None 50]
      discover_hosts_result_invariant [OF a2, of None 50]
      discover_hosts_result_invariant [OF a3, of None 50]
      discover_hosts_result_invariant [OF a1, of None 0]
      r1 r2 r3 r4 n
    by simp
qed

text \<open>
  C10 as stated fails for a failure inside the loop. When the result of every future
  raises, no host is found and the error field is \<open>None\<close>; when the callback raises at
  every call, the hosts are found and the error field is \<open>None\<close> as well.
\<close>

theorem discover_hosts_swallowed_fault_counterexample:
  "ping_fault env_faulty ''10.0.0.1'' = Some ''worker failed''
   \<and> ping_fault env_faulty ''10.0.0.2'' = Some ''worker failed''
   \<and> probes (discover_hosts env_faulty (Some ''10.0.0.0/30'') None 50) = [''10.0.0.1'', ''10.0.0.2'']
   \<and> hosts (returned (discover_hosts env_faulty (Some ''10.0.0.0/30'') None 50)) = []
   \<and> disc_error (returned (discover_hosts env_faulty (Some ''10.0.0.0/30'') None 50)) = None
   \<and> progress (discover_hosts env_lan (Some ''10.0.0.0/30'')
         (Some (\<lambda>_ _ _. Some ''callback failed'')) 50) =
       [(1, 2, ''10.0.0.2'', True, Some ''callback failed''),
        (2, 2, ''10.0.0.1'', True, Some ''callback failed'')]
   \<and> disc_error (returned (discover_hosts env_lan (Some ''10.0.0.0/30'')
         (Some (\<lambda>_ _ _. Some ''callback failed'')) 50)) = None"
  by code_simp

end
